theory Spec2Isabelle
  imports Main
begin

section \<open>Strings: the JavaScript string operations the tools use\<close>

text \<open>
  Project identifiers, URIs and messages are JavaScript strings; they are modelled as
  \<open>string\<close>, a character standing for the code unit of the same number (0 to 255).
  Template literals are concatenations. The tools only look for the ASCII characters
  \<open>/\<close>, \<open>"\<close> and \<open>,\<close> in them.
\<close>

type_synonym project = string

text \<open>\<open>a || b\<close> and \<open>if (a)\<close> on values that are a string or undefined: the empty string
  and undefined are falsy.\<close>

definition truthy :: "string option \<Rightarrow> bool" where
  "truthy v = (case v of None \<Rightarrow> False | Some s \<Rightarrow> s \<noteq> [])"

definition js_or :: "string option \<Rightarrow> string option \<Rightarrow> string option" where
  "js_or a b = (if truthy a then a else b)"

text \<open>\<open>String.prototype.split(',')\<close>: the pieces between the separators; the empty
  string gives one empty piece.\<close>

fun split :: "char \<Rightarrow> string \<Rightarrow> string list" where
  "split sep [] = [[]]"
| "split sep (c # cs) =
     (if c = sep then [] # split sep cs
      else (case split sep cs of [] \<Rightarrow> [[c]] | p # ps \<Rightarrow> (c # p) # ps))"

text \<open>\<open>String.prototype.trim()\<close> removes white space and line terminators from both
  ends. Among the code units 0 to 255 these are tab, line feed, vertical tab, form feed,
  carriage return, space and the no-break space U+00A0.\<close>

definition is_space :: "char \<Rightarrow> bool" where
  "is_space c =
     (c \<in> set [CHR 0x09, CHR 0x0A, CHR 0x0B, CHR 0x0C, CHR 0x0D, CHR 0x20, CHR 0xA0])"

definition trim :: "string \<Rightarrow> string" where
  "trim s = rev (dropWhile is_space (rev (dropWhile is_space s)))"

text \<open>\<open>Array.prototype.join(sep)\<close>.\<close>

fun join :: "string \<Rightarrow> string list \<Rightarrow> string" where
  "join sep [] = []"
| "join sep [x] = x"
| "join sep (x # y # ys) = x @ sep @ join sep (y # ys)"

text \<open>Decimal rendering of a number, as string concatenation with \<open>Date.now()\<close> gives.\<close>

definition digit_char :: "nat \<Rightarrow> char" where
  "digit_char d = ''0123456789'' ! d"

fun dec :: "nat \<Rightarrow> string" where
  "dec n = (if n < 10 then [digit_char n] else dec (n div 10) @ [digit_char (n mod 10)])"

declare dec.simps [simp del]

subsection \<open>The project-identifier patterns\<close>

text \<open>
  The three regular expressions of the tools all have the shape
  \<open>projects\/([^...]+)<tail>\<close>: the literal \<open>projects/\<close>, a non-empty greedy run of
  characters outside a stop set, and a literal tail that starts with \<open>/\<close>, which is in
  every stop set. At a given start the greedy run is the only candidate: a shorter run is
  followed by a character of the run, never by \<open>/\<close>. \<open>match_at\<close> is the match anchored
  at the head of the string: the captured group and the rest after the whole match.
\<close>

definition match_at :: "(char \<Rightarrow> bool) \<Rightarrow> string \<Rightarrow> string \<Rightarrow> (string \<times> string) option" where
  "match_at stop tail s =
     (if take 9 s = ''projects/'' then
        (let rest = drop 9 s;
             grp = takeWhile (\<lambda>c. \<not> stop c) rest;
             after = dropWhile (\<lambda>c. \<not> stop c) rest
         in if grp \<noteq> [] \<and> take (length tail) after = tail
            then Some (grp, drop (length tail) after) else None)
      else None)"

text \<open>\<open>str.match(re)\<close> without the \<open>g\<close> flag: the leftmost match.\<close>

fun first_match :: "(char \<Rightarrow> bool) \<Rightarrow> string \<Rightarrow> string \<Rightarrow> string option" where
  "first_match stop tail [] = None"
| "first_match stop tail (c # cs) =
     (case match_at stop tail (c # cs) of
        Some (grp, _) \<Rightarrow> Some grp
      | None \<Rightarrow> first_match stop tail cs)"

text \<open>\<open>str.matchAll(re)\<close> with the \<open>g\<close> flag: every match from left to right, the
  search resuming after the end of the previous match. The fuel is the number of
  characters still to be looked at.\<close>

fun all_matches_from :: "nat \<Rightarrow> (char \<Rightarrow> bool) \<Rightarrow> string \<Rightarrow> string \<Rightarrow> string list" where
  "all_matches_from 0 stop tail s = []"
| "all_matches_from (Suc k) stop tail s =
     (case s of
        [] \<Rightarrow> []
      | c # cs \<Rightarrow>
         (case match_at stop tail s of
            Some (grp, rest) \<Rightarrow> grp # all_matches_from k stop tail rest
          | None \<Rightarrow> all_matches_from k stop tail cs))"

definition all_matches :: "(char \<Rightarrow> bool) \<Rightarrow> string \<Rightarrow> string \<Rightarrow> string list" where
  "all_matches stop tail s = all_matches_from (length s) stop tail s"

text \<open>\<open>/projects\/([^\/]+)\//\<close>\<close>

definition url_project :: "string \<Rightarrow> string option" where
  "url_project uri = first_match (\<lambda>c. c = CHR ''/'') ''/'' uri"

text \<open>\<open>/projects\/([^\/"]+)\//g\<close>\<close>

definition json_projects :: "string \<Rightarrow> string list" where
  "json_projects js = all_matches (\<lambda>c. c = CHR ''/'' \<or> c = CHR 0x22) ''/'' js"

text \<open>\<open>/projects\/([^\/"]+)\/global\/networks/g\<close>\<close>

definition json_network_projects :: "string \<Rightarrow> string list" where
  "json_network_projects js =
     all_matches (\<lambda>c. c = CHR ''/'' \<or> c = CHR 0x22) ''/global/networks'' js"

section \<open>Project scope discovery (identify-network-projects.ts)\<close>

subsection \<open>What the provider's APIs return\<close>

text \<open>
  An API call either throws an error with a message (\<open>Inl\<close>) or returns (\<open>Inr\<close>).
  String-valued attributes that are absent or not strings are \<open>None\<close>. The tool reads
  the attribute bag of a network and of an interconnect attachment only through
  \<open>JSON.stringify\<close>; the bag is given by that text (\<open>None\<close> when the resource has no
  \<open>additionalAttributes\<close>).
\<close>

record usable_subnet =
  us_subnetwork :: "string option"
  us_network :: "string option"

record resource =
  assetType :: string
  displayName :: string
  attr_subnetwork :: "string option"
  attr_network :: "string option"
  attrs_json :: "string option"

record nic =
  nic_network :: "string option"
  nic_subnetwork :: "string option"

record vm_instance =
  inst_displayName :: string
  networkInterfaces :: "nic list"

text \<open>\<open>listUsableAsync\<close> is an async iterator: it yields some subnets and may then
  throw (\<open>Some message\<close>).\<close>

record cloud =
  getXpnHost :: "project \<Rightarrow> string + string option"
  listUsable :: "project \<Rightarrow> usable_subnet list \<times> string option"
  searchResources :: "project \<Rightarrow> string + resource list"
  searchInstances :: "project \<Rightarrow> string + vm_instance list"

subsection \<open>The state of one discovery run\<close>

datatype relationship =
    Edge project project string
  | ScanError project string

fun edge_targets :: "relationship list \<Rightarrow> project list" where
  "edge_targets [] = []"
| "edge_targets (Edge s t r # es) = t # edge_targets es"
| "edge_targets (ScanError s m # es) = edge_targets es"

text \<open>\<open>visitedProjects\<close> is a JavaScript \<open>Set\<close>: it keeps insertion order and ignores
  a second insertion. \<open>scanned\<close> is not in the source: it logs the projects the loop
  has issued API calls for.\<close>

record scope_state =
  visitedProjects :: "project list"
  projectGraph :: "relationship list"
  scanned :: "project list"

definition set_add :: "'a list \<Rightarrow> 'a \<Rightarrow> 'a list" where
  "set_add vs x = (if x \<in> set vs then vs else vs @ [x])"

definition new_Set :: "'a list \<Rightarrow> 'a list" where
  "new_Set xs = foldl set_add [] xs"

text \<open>The block every extraction site ends in:
  \<open>if (!visitedProjects.has(d)) { visitedProjects.add(d); projectGraph.push({...}) }\<close>.\<close>

definition add_link :: "project \<Rightarrow> project \<Rightarrow> string \<Rightarrow> scope_state \<Rightarrow> scope_state" where
  "add_link projectId d why st =
     (if d \<in> set (visitedProjects st) then st
      else st\<lparr>visitedProjects := visitedProjects st @ [d],
              projectGraph := projectGraph st @ [Edge projectId d why]\<rparr>)"

definition push_error :: "project \<Rightarrow> string \<Rightarrow> scope_state \<Rightarrow> scope_state" where
  "push_error projectId msg st = st\<lparr>projectGraph := projectGraph st @ [ScanError projectId msg]\<rparr>"

subsection \<open>The extraction sites, in the order of the source\<close>

text \<open>Step 0, \<open>getXpnHost\<close>; an error is logged and ignored.\<close>

definition scan_xpn_host :: "cloud \<Rightarrow> project \<Rightarrow> scope_state \<Rightarrow> scope_state" where
  "scan_xpn_host c projectId st =
     (case getXpnHost c projectId of
        Inl err \<Rightarrow> st
      | Inr xpnName \<Rightarrow>
         (case xpnName of
            None \<Rightarrow> st
          | Some hostProject \<Rightarrow>
             if hostProject \<noteq> [] \<and> hostProject \<noteq> projectId
             then add_link projectId hostProject
                    (''Project is a Service Project attached to Host Project '' @ hostProject) st
             else st))"

text \<open>Step 1, \<open>listUsable\<close>; an error of the iterator is logged and ignored, the
  subnets it yielded before have been processed.\<close>

definition scan_usable_subnet :: "project \<Rightarrow> usable_subnet \<Rightarrow> scope_state \<Rightarrow> scope_state" where
  "scan_usable_subnet projectId subnet st =
     (case js_or (us_subnetwork subnet) (us_network subnet) of
        None \<Rightarrow> st
      | Some rawUrl \<Rightarrow>
         if rawUrl = [] then st
         else (case url_project rawUrl of
                 None \<Rightarrow> st
               | Some detectedProject \<Rightarrow>
                  if detectedProject \<noteq> projectId
                  then add_link projectId detectedProject
                         (''Project has usable subnet '' @ rawUrl @ '' from Host Project ''
                            @ detectedProject) st
                  else st))"

definition scan_usable :: "cloud \<Rightarrow> project \<Rightarrow> scope_state \<Rightarrow> scope_state" where
  "scan_usable c projectId st =
     fold (scan_usable_subnet projectId) (fst (listUsable c projectId)) st"

text \<open>Forwarding rules: the string-valued ones of \<open>[attrs.subnetwork, attrs.network]\<close>.\<close>

definition strings_of :: "string option list \<Rightarrow> string list" where
  "strings_of us = List.map_filter (\<lambda>u. u) us"

definition scan_rule_uri :: "project \<Rightarrow> string \<Rightarrow> string \<Rightarrow> scope_state \<Rightarrow> scope_state" where
  "scan_rule_uri projectId resName uri st =
     (case url_project uri of
        None \<Rightarrow> st
      | Some detectedProject \<Rightarrow>
         if detectedProject \<noteq> projectId
         then add_link projectId detectedProject
                (''ForwardingRule '' @ resName @ '' uses network/subnet in '' @ detectedProject) st
         else st)"

definition scan_resource :: "project \<Rightarrow> resource \<Rightarrow> scope_state \<Rightarrow> scope_state" where
  "scan_resource projectId res st =
     (if assetType res = ''compute.googleapis.com/Subnetwork'' then st
      else if assetType res = ''compute.googleapis.com/ForwardingRule''
      then fold (scan_rule_uri projectId (displayName res))
             (strings_of [attr_subnetwork res, attr_network res]) st
      else st)"

text \<open>Instances: \<open>[nic.network, nic.subnetwork]\<close> of every interface. This is the one
  site that also rejects \<open>google-cloud-clients\<close>.\<close>

definition scan_nic_uri :: "project \<Rightarrow> string \<Rightarrow> string \<Rightarrow> scope_state \<Rightarrow> scope_state" where
  "scan_nic_uri projectId instName uri st =
     (case url_project uri of
        None \<Rightarrow> st
      | Some detectedProject \<Rightarrow>
         if detectedProject \<noteq> projectId \<and> detectedProject \<noteq> ''google-cloud-clients''
         then add_link projectId detectedProject
                (''Instance '' @ instName @ '' uses network/subnet in '' @ detectedProject
                   @ '' (Shared VPC Host)'') st
         else st)"

definition scan_nic :: "project \<Rightarrow> string \<Rightarrow> nic \<Rightarrow> scope_state \<Rightarrow> scope_state" where
  "scan_nic projectId instName n st =
     fold (scan_nic_uri projectId instName) (strings_of [nic_network n, nic_subnetwork n]) st"

definition scan_instance :: "project \<Rightarrow> vm_instance \<Rightarrow> scope_state \<Rightarrow> scope_state" where
  "scan_instance projectId inst st =
     fold (scan_nic projectId (inst_displayName inst)) (networkInterfaces inst) st"

text \<open>Peerings: every match of the network pattern in the serialised attributes.\<close>

definition scan_peer :: "project \<Rightarrow> string \<Rightarrow> project \<Rightarrow> scope_state \<Rightarrow> scope_state" where
  "scan_peer projectId netName detectedProject st =
     (if detectedProject \<noteq> projectId
      then add_link projectId detectedProject
             (''Network '' @ netName @ '' has peering/link to '' @ detectedProject) st
      else st)"

definition scan_network :: "project \<Rightarrow> resource \<Rightarrow> scope_state \<Rightarrow> scope_state" where
  "scan_network projectId net st =
     (case attrs_json net of
        None \<Rightarrow> st
      | Some attrsString \<Rightarrow>
         fold (scan_peer projectId (displayName net)) (json_network_projects attrsString) st)"

text \<open>Interconnect attachments: every match in \<open>JSON.stringify(attrs || {})\<close>.\<close>

definition scan_ic_ref :: "project \<Rightarrow> string \<Rightarrow> project \<Rightarrow> scope_state \<Rightarrow> scope_state" where
  "scan_ic_ref projectId icName detectedProject st =
     (if detectedProject \<noteq> projectId
      then add_link projectId detectedProject
             (''Interconnect Attachment '' @ icName @ '' references '' @ detectedProject) st
      else st)"

definition scan_interconnect :: "project \<Rightarrow> resource \<Rightarrow> scope_state \<Rightarrow> scope_state" where
  "scan_interconnect projectId ic st =
     fold (scan_ic_ref projectId (displayName ic))
       (json_projects (case attrs_json ic of None \<Rightarrow> ''{}'' | Some js \<Rightarrow> js)) st"

subsection \<open>The loop body and the tool\<close>

text \<open>The body of \<open>for (const projectId of startProjects)\<close>. Either asset search may
  throw: the outer \<open>catch\<close> pushes an error entry and the loop goes on to the next
  project; what the earlier steps recorded stays.\<close>

definition scan_project :: "cloud \<Rightarrow> project \<Rightarrow> scope_state \<Rightarrow> scope_state" where
  "scan_project c projectId st0 =
     (let st1 = st0\<lparr>scanned := scanned st0 @ [projectId]\<rparr>;
          st2 = scan_xpn_host c projectId st1;
          st3 = scan_usable c projectId st2
      in case searchResources c projectId of
           Inl msg \<Rightarrow> push_error projectId msg st3
         | Inr resources \<Rightarrow>
            (let st4 = fold (scan_resource projectId) resources st3
             in case searchInstances c projectId of
                  Inl msg \<Rightarrow> push_error projectId msg st4
                | Inr instances \<Rightarrow>
                   (let st5 = fold (scan_instance projectId) instances st4;
                        networks = filter (\<lambda>r. assetType r = ''compute.googleapis.com/Network'')
                                     resources;
                        st6 = fold (scan_network projectId) networks st5;
                        interconnects =
                          filter (\<lambda>r. assetType r = ''compute.googleapis.com/InterconnectAttachment'')
                            resources
                    in fold (scan_interconnect projectId) interconnects st6)))"

text \<open>\<open>params.rootProjects\<close> is typed \<open>any\<close>: an array of strings, a string, or
  anything else.\<close>

datatype root_input = RootArray "string list" | RootString string | RootOther

definition start_projects :: "root_input \<Rightarrow> project list" where
  "start_projects rootProjectsInput =
     (case rootProjectsInput of
        RootArray ps \<Rightarrow> ps
      | RootString s \<Rightarrow> map trim (split CHR '','' s)
      | RootOther \<Rightarrow> [])"

record scope_result =
  detectedScope :: "project list"
  relationships :: "relationship list"
  scannedProjects :: "project list"

definition detectAgentScope :: "cloud \<Rightarrow> root_input \<Rightarrow> scope_result" where
  "detectAgentScope c rootProjectsInput =
     (let startProjects = start_projects rootProjectsInput;
          st = fold (scan_project c) startProjects
                 \<lparr>visitedProjects = new_Set startProjects, projectGraph = [], scanned = []\<rparr>
      in \<lparr>detectedScope = visitedProjects st, relationships = projectGraph st,
          scannedProjects = scanned st\<rparr>)"

subsection \<open>The detections of a run, apart from the visited set\<close>

text \<open>
  What the extraction sites find for one project, whatever has been visited: for every
  site, in the order of the source, the edges it would record (its own tests on the
  detected project applied), and the error entry of a failed asset search, after which
  the rest of the project is skipped.
\<close>

definition xpn_detections :: "cloud \<Rightarrow> project \<Rightarrow> relationship list" where
  "xpn_detections c projectId =
     (case getXpnHost c projectId of
        Inl err \<Rightarrow> []
      | Inr xpnName \<Rightarrow>
         (case xpnName of
            None \<Rightarrow> []
          | Some hostProject \<Rightarrow>
             if hostProject \<noteq> [] \<and> hostProject \<noteq> projectId
             then [Edge projectId hostProject
                     (''Project is a Service Project attached to Host Project '' @ hostProject)]
             else []))"

definition subnet_detections :: "project \<Rightarrow> usable_subnet \<Rightarrow> relationship list" where
  "subnet_detections projectId subnet =
     (case js_or (us_subnetwork subnet) (us_network subnet) of
        None \<Rightarrow> []
      | Some rawUrl \<Rightarrow>
         if rawUrl = [] then []
         else (case url_project rawUrl of
                 None \<Rightarrow> []
               | Some detectedProject \<Rightarrow>
                  if detectedProject \<noteq> projectId
                  then [Edge projectId detectedProject
                          (''Project has usable subnet '' @ rawUrl @ '' from Host Project ''
                             @ detectedProject)]
                  else []))"

definition rule_uri_detections :: "project \<Rightarrow> string \<Rightarrow> string \<Rightarrow> relationship list" where
  "rule_uri_detections projectId resName uri =
     (case url_project uri of
        None \<Rightarrow> []
      | Some detectedProject \<Rightarrow>
         if detectedProject \<noteq> projectId
         then [Edge projectId detectedProject
                 (''ForwardingRule '' @ resName @ '' uses network/subnet in '' @ detectedProject)]
         else [])"

definition resource_detections :: "project \<Rightarrow> resource \<Rightarrow> relationship list" where
  "resource_detections projectId res =
     (if assetType res = ''compute.googleapis.com/Subnetwork'' then []
      else if assetType res = ''compute.googleapis.com/ForwardingRule''
      then concat (map (rule_uri_detections projectId (displayName res))
                     (strings_of [attr_subnetwork res, attr_network res]))
      else [])"

definition nic_uri_detections :: "project \<Rightarrow> string \<Rightarrow> string \<Rightarrow> relationship list" where
  "nic_uri_detections projectId instName uri =
     (case url_project uri of
        None \<Rightarrow> []
      | Some detectedProject \<Rightarrow>
         if detectedProject \<noteq> projectId \<and> detectedProject \<noteq> ''google-cloud-clients''
         then [Edge projectId detectedProject
                 (''Instance '' @ instName @ '' uses network/subnet in '' @ detectedProject
                    @ '' (Shared VPC Host)'')]
         else [])"

definition instance_detections :: "project \<Rightarrow> vm_instance \<Rightarrow> relationship list" where
  "instance_detections projectId inst =
     concat (map (\<lambda>n. concat (map (nic_uri_detections projectId (inst_displayName inst))
                                  (strings_of [nic_network n, nic_subnetwork n])))
               (networkInterfaces inst))"

definition peer_detections :: "project \<Rightarrow> string \<Rightarrow> project \<Rightarrow> relationship list" where
  "peer_detections projectId netName detectedProject =
     (if detectedProject \<noteq> projectId
      then [Edge projectId detectedProject
              (''Network '' @ netName @ '' has peering/link to '' @ detectedProject)]
      else [])"

definition network_detections :: "project \<Rightarrow> resource \<Rightarrow> relationship list" where
  "network_detections projectId net =
     (case attrs_json net of
        None \<Rightarrow> []
      | Some attrsString \<Rightarrow>
         concat (map (peer_detections projectId (displayName net))
                   (json_network_projects attrsString)))"

definition ic_ref_detections :: "project \<Rightarrow> string \<Rightarrow> project \<Rightarrow> relationship list" where
  "ic_ref_detections projectId icName detectedProject =
     (if detectedProject \<noteq> projectId
      then [Edge projectId detectedProject
              (''Interconnect Attachment '' @ icName @ '' references '' @ detectedProject)]
      else [])"

definition interconnect_detections :: "project \<Rightarrow> resource \<Rightarrow> relationship list" where
  "interconnect_detections projectId ic =
     concat (map (ic_ref_detections projectId (displayName ic))
               (json_projects (case attrs_json ic of None \<Rightarrow> ''{}'' | Some js \<Rightarrow> js)))"

definition detections :: "cloud \<Rightarrow> project \<Rightarrow> relationship list" where
  "detections c projectId =
     xpn_detections c projectId
     @ concat (map (subnet_detections projectId) (fst (listUsable c projectId)))
     @ (case searchResources c projectId of
          Inl msg \<Rightarrow> [ScanError projectId msg]
        | Inr resources \<Rightarrow>
           concat (map (resource_detections projectId) resources)
           @ (case searchInstances c projectId of
                Inl msg \<Rightarrow> [ScanError projectId msg]
              | Inr instances \<Rightarrow>
                 concat (map (instance_detections projectId) instances)
                 @ concat (map (network_detections projectId)
                             (filter (\<lambda>r. assetType r = ''compute.googleapis.com/Network'')
                                resources))
                 @ concat (map (interconnect_detections projectId)
                             (filter (\<lambda>r. assetType r
                                            = ''compute.googleapis.com/InterconnectAttachment'')
                                resources))))"

text \<open>The visited-gate over a sequence of detections: an edge is kept when its target
  is not among the visited projects, and its target is visited from then on; an error
  entry is always kept.\<close>

fun keep_first :: "project list \<Rightarrow> relationship list \<Rightarrow> relationship list" where
  "keep_first visited [] = []"
| "keep_first visited (Edge s t r # ds) =
     (if t \<in> set visited then keep_first visited ds
      else Edge s t r # keep_first (visited @ [t]) ds)"
| "keep_first visited (ScanError s m # ds) = ScanError s m # keep_first visited ds"

text \<open>Recording a sequence of detections in the state of the run.\<close>

fun record_one :: "relationship \<Rightarrow> scope_state \<Rightarrow> scope_state" where
  "record_one (Edge s t r) st = add_link s t r st"
| "record_one (ScanError s m) st = push_error s m st"

definition record_all :: "relationship list \<Rightarrow> scope_state \<Rightarrow> scope_state" where
  "record_all ds st = fold record_one ds st"

section \<open>Flow-log correlation (vpc-flow-logs.ts)\<close>

text \<open>
  A row as the query selects it (some of its columns), and the record the tool returns:
  the row's columns and the project it was read from. The \<open>timestamp\<close> column is a
  BigQuery TIMESTAMP: an instant in microseconds since the epoch, or NULL (\<open>None\<close>).
\<close>

record flow_row =
  timestamp :: "int option"
  src_ip :: string
  dest_ip :: string
  bytes_sent :: int

record flow_record = flow_row +
  source_dataset_project :: project

definition tag_row :: "project \<Rightarrow> flow_row \<Rightarrow> flow_record" where
  "tag_row projectId row =
     \<lparr>timestamp = timestamp row, src_ip = src_ip row, dest_ip = dest_ip row,
      bytes_sent = bytes_sent row, source_dataset_project = projectId\<rparr>"

text \<open>\<open>bigquery.query(options)\<close> for the table of one project, with the query
  parameters \<open>sourceIp\<close>, \<open>destIp\<close>, \<open>limit\<close>, \<open>hoursAgo\<close>: it throws (\<open>Inl message\<close>) or
  returns rows.\<close>

type_synonym bigquery = "project \<Rightarrow> string \<Rightarrow> string \<Rightarrow> int \<Rightarrow> int \<Rightarrow> string + flow_row list"

record flow_params =
  projects :: "project list"
  sourceIp :: string
  destIp :: string
  limit :: "int option"
  hoursAgo :: "int option"

text \<open>\<open>queried\<close> is not in the source: it logs the projects a query was issued for.\<close>

record flow_state =
  results :: "flow_record list"
  errors :: "(project \<times> string) list"
  queried :: "project list"

definition query_project ::
  "bigquery \<Rightarrow> string \<Rightarrow> string \<Rightarrow> int \<Rightarrow> int \<Rightarrow> project \<Rightarrow> flow_state \<Rightarrow> flow_state" where
  "query_project bq sIp dIp lim hrs projectId st0 =
     (let st = st0\<lparr>queried := queried st0 @ [projectId]\<rparr>
      in case bq projectId sIp dIp lim hrs of
           Inr rows \<Rightarrow>
             if length rows > 0
             then st\<lparr>results := results st @ map (tag_row projectId) rows\<rparr>
             else st
         | Inl message \<Rightarrow> st\<lparr>errors := errors st @ [(projectId, message)]\<rparr>)"

text \<open>
  \<open>new Date(a.timestamp?.value || a.timestamp).getTime()\<close>: the time value of a
  \<open>Date\<close> is a whole number of milliseconds of magnitude at most 8.64e15, so the
  microseconds of the instant are cut off, and an instant outside that range has no time
  value: \<open>getTime\<close> gives NaN (\<open>None\<close>). For a NULL timestamp the argument is \<open>null\<close>,
  and \<open>new Date(null)\<close> is the epoch.
\<close>

definition date_range :: int where
  "date_range = 8640000000000000"

definition getTime :: "int option \<Rightarrow> int option" where
  "getTime ts =
     (case ts of
        None \<Rightarrow> Some 0
      | Some micros \<Rightarrow>
         (let ms = micros div 1000
          in if - date_range \<le> ms \<and> ms \<le> date_range then Some ms else None))"

text \<open>The comparator \<open>(a, b) => tB - tA\<close>. The difference is NaN when one of the
  two is NaN; the sort takes a NaN answer of its comparator for 0.\<close>

definition compare_rows :: "flow_record \<Rightarrow> flow_record \<Rightarrow> int" where
  "compare_rows a b =
     (case getTime (timestamp a) of
        None \<Rightarrow> 0
      | Some tA \<Rightarrow> (case getTime (timestamp b) of None \<Rightarrow> 0 | Some tB \<Rightarrow> tB - tA))"

text \<open>
  \<open>Array.prototype.sort(comparefn)\<close> is a stable sort: an element stays before a later
  one unless the comparator puts it after. For a comparator that is a consistent order
  this fixes the result, and the insertion sort below computes it; for one that is not
  (a NaN among the time values) the language leaves the order to the implementation, and
  the insertion sort is one of the admitted outcomes.
\<close>

fun insert_by :: "('a \<Rightarrow> 'a \<Rightarrow> int) \<Rightarrow> 'a \<Rightarrow> 'a list \<Rightarrow> 'a list" where
  "insert_by cmp x [] = [x]"
| "insert_by cmp x (y # ys) =
     (if cmp x y \<le> 0 then x # y # ys else y # insert_by cmp x ys)"

definition js_sort :: "('a \<Rightarrow> 'a \<Rightarrow> int) \<Rightarrow> 'a list \<Rightarrow> 'a list" where
  "js_sort cmp xs = foldr (insert_by cmp) xs []"

definition sort_desc :: "flow_record list \<Rightarrow> flow_record list" where
  "sort_desc rs = js_sort compare_rows rs"

text \<open>\<open>xs.slice(0, e)\<close> for an integer \<open>e\<close>: a negative end counts from the end of
  the array.\<close>

definition slice0 :: "'a list \<Rightarrow> int \<Rightarrow> 'a list" where
  "slice0 xs e =
     (let n = int (length xs);
          k = (if e < 0 then max (n + e) 0 else min e n)
      in take (nat k) xs)"

text \<open>The defaults of the destructuring \<open>limit = 20, hoursAgo = 1\<close>.\<close>

definition flow_limit :: "flow_params \<Rightarrow> int" where
  "flow_limit params = (case limit params of None \<Rightarrow> 20 | Some l \<Rightarrow> l)"

definition flow_hours :: "flow_params \<Rightarrow> int" where
  "flow_hours params = (case hoursAgo params of None \<Rightarrow> 1 | Some h \<Rightarrow> h)"

record flow_result =
  recordCount :: nat
  records :: "flow_record list"
  errors_out :: "(project \<times> string) list option"
  message :: string
  queriedProjects :: "project list"

definition queryVpcFlowLogs :: "bigquery \<Rightarrow> flow_params \<Rightarrow> flow_result" where
  "queryVpcFlowLogs bq params =
     (let lim = flow_limit params;
          hrs = flow_hours params;
          uniqueProjects = new_Set (projects params);
          st = fold (query_project bq (sourceIp params) (destIp params) lim hrs) uniqueProjects
                 \<lparr>results = [], errors = [], queried = []\<rparr>;
          finalResults = slice0 (sort_desc (results st)) lim
      in \<lparr>recordCount = length finalResults,
          records = finalResults,
          errors_out = (if length (errors st) > 0 then Some (errors st) else None),
          message =
            (if length finalResults > 0
             then ''Found '' @ dec (length finalResults) @ '' flow log entries.''
             else ''No flow logs found. Verified in projects: '' @ join '', '' uniqueProjects
                  @ ''. Ensure VPC Flow Logs are ENABLED and exported to BigQuery dataset ''
                  @ [CHR 0x27] @ ''flow_logs'' @ [CHR 0x27] @ '' in these projects.''),
          queriedProjects = queried st\<rparr>)"

text \<open>For stating the claims: the query one project's table receives, the error
  entries a list of projects must produce, and the error entries of a result.\<close>

definition project_query :: "bigquery \<Rightarrow> flow_params \<Rightarrow> project \<Rightarrow> string + flow_row list" where
  "project_query bq params p =
     bq p (sourceIp params) (destIp params) (flow_limit params) (flow_hours params)"

fun query_failures :: "(project \<Rightarrow> string + 'a) \<Rightarrow> project list \<Rightarrow> (project \<times> string) list" where
  "query_failures q [] = []"
| "query_failures q (p # ps) =
     (case q p of
        Inl m \<Rightarrow> (p, m) # query_failures q ps
      | Inr rows \<Rightarrow> query_failures q ps)"

definition failure_entries :: "flow_result \<Rightarrow> (project \<times> string) list" where
  "failure_entries r = (case errors_out r of None \<Rightarrow> [] | Some es \<Rightarrow> es)"




section \<open>Firewall rule mutation (firewall-manager.ts)\<close>

text \<open>
  The function takes \<open>params: any\<close>, the argument object of the tool call. The tool
  declares \<open>projectId\<close>, \<open>action\<close> and \<open>ruleName\<close> as required strings and the rest as
  optional; nothing checks the values that arrive. \<open>network\<close> is the one parameter a
  method is called on, so it is modelled as the JavaScript value it may be: undefined,
  null, a boolean, a number or a string. The other parameters are only compared,
  copied or put into template literals, where any value behaves as a string or as an
  absent field does.
\<close>

datatype js_value = JUndefined | JNull | JBool bool | JNum int | JStr string


record firewall_params =
  fw_projectId :: string
  action :: string
  ruleName :: string
  network :: js_value
  description :: "string option"
  direction :: "string option"
  priority :: "int option"
  targetTags :: "string list option"
  sourceRanges :: "string list option"
  allowed :: "(string \<times> string list) list option"
  denied :: "(string \<times> string list) list option"












section \<open>Reachability probe (connectivity-test.ts)\<close>

record connectivity_params =
  ct_projectId :: string
  ct_sourceIp :: "string option"
  ct_sourceInstance :: "string option"
  ct_destIp :: "string option"
  ct_destInstance :: "string option"
  ct_destinationPort :: "int option"
  ct_protocol :: "string option"

record connectivity_request =
  req_parent :: string
  req_testId :: string
  req_name :: string
  req_source :: "string option \<times> string option"
  req_destination :: "string option \<times> string option \<times> int option"
  req_protocol :: string

text \<open>A trace has steps or not; a step is given by its \<open>JSON.stringify\<close> text, the only
  way the tool reads it.\<close>

record reachability_details =
  rd_result :: "string option"
  rd_verifyTime :: "string option"
  rd_error :: "string option"
  rd_traces :: "string list option list"

datatype ct_call = CreateConnectivityTest connectivity_request | DeleteConnectivityTest string

text \<open>\<open>createConnectivityTest\<close> throws, or returns an operation whose promise rejects
  or resolves to the test resource; \<open>deleteConnectivityTest\<close> throws or returns.\<close>

record reachability_service =
  createConnectivityTest :: "connectivity_request \<Rightarrow> string + (string + reachability_details option)"
  deleteConnectivityTest :: "string \<Rightarrow> string option"

text \<open>The object the tool returns: \<open>testId\<close>, \<open>result\<close>, \<open>verifyTime\<close>, \<open>errorInfo\<close>,
  \<open>fullTrace\<close>, \<open>discoveredScope\<close> and \<open>message\<close>, or \<open>error\<close> and \<open>suggestion\<close>.\<close>

datatype ct_result =
    TestCompleted string "string option" "string option" "string option"
      "string list option list" "project list" string
  | TestError string string

definition step_projects :: "project \<Rightarrow> string \<Rightarrow> project list \<Rightarrow> project list" where
  "step_projects projectId jsonStep discovered =
     fold (\<lambda>p acc. if p \<noteq> [] \<and> p \<noteq> projectId \<and> p \<noteq> ''google-cloud-clients''
                    then set_add acc p else acc)
       (json_projects jsonStep) discovered"

definition trace_projects :: "project \<Rightarrow> string list option \<Rightarrow> project list \<Rightarrow> project list" where
  "trace_projects projectId trace discovered =
     (case trace of
        None \<Rightarrow> discovered
      | Some steps \<Rightarrow> fold (step_projects projectId) steps discovered)"

definition ct_suggestion :: string where
  "ct_suggestion = ''Ensure API '' @ [CHR 0x27] @ ''networkmanagement.googleapis.com'' @ [CHR 0x27]
                   @ '' is enabled and the agent has permissions.''"

text \<open>The request object, with the test identifier made from the clock. The tool is
  modelled with the list of the calls it makes to the service, in order, next to the
  object it returns.\<close>

definition ct_request :: "nat \<Rightarrow> connectivity_params \<Rightarrow> connectivity_request" where
  "ct_request now params =
     (let testId = ''adk-test-'' @ dec now;
          parent = ''projects/'' @ ct_projectId params @ ''/locations/global'';
          name = parent @ ''/connectivityTests/'' @ testId
      in \<lparr>req_parent = parent, req_testId = testId, req_name = name,
          req_source = (ct_sourceIp params, ct_sourceInstance params),
          req_destination = (ct_destIp params, ct_destInstance params,
                             ct_destinationPort params),
          req_protocol = (case ct_protocol params of
                            None \<Rightarrow> ''TCP''
                          | Some pr \<Rightarrow> if pr \<noteq> [] then pr else ''TCP'')\<rparr>)"

definition runConnectivityTest ::
  "reachability_service \<Rightarrow> nat \<Rightarrow> connectivity_params \<Rightarrow> ct_result \<times> ct_call list" where
  "runConnectivityTest svc now params =
     (let request = ct_request now params;
          testId = req_testId request;
          name = req_name request
      in case createConnectivityTest svc request of
           Inl msg \<Rightarrow> (TestError msg ct_suggestion, [CreateConnectivityTest request])
         | Inr oper \<Rightarrow>
            (case oper of
               Inl msg \<Rightarrow> (TestError msg ct_suggestion, [CreateConnectivityTest request])
             | Inr response \<Rightarrow>
                (let result = (case response of None \<Rightarrow> None | Some d \<Rightarrow> rd_result d);
                     verifyTime = (case response of None \<Rightarrow> None | Some d \<Rightarrow> rd_verifyTime d);
                     error = (case response of None \<Rightarrow> None | Some d \<Rightarrow> rd_error d);
                     traces = (case response of None \<Rightarrow> [] | Some d \<Rightarrow> rd_traces d);
                     discoveredProjects = fold (trace_projects (ct_projectId params)) traces []
                 in case deleteConnectivityTest svc name of
                      Some msg \<Rightarrow>
                        (TestError msg ct_suggestion,
                         [CreateConnectivityTest request, DeleteConnectivityTest name])
                    | None \<Rightarrow>
                        (TestCompleted testId result verifyTime error traces discoveredProjects
                           (''Test completed. Result: ''
                              @ (case result of None \<Rightarrow> ''undefined'' | Some r \<Rightarrow> r)
                              @ ''. Discovered related projects: ''
                              @ join '', '' discoveredProjects),
                         [CreateConnectivityTest request, DeleteConnectivityTest name]))))"

fun delete_calls :: "ct_call list \<Rightarrow> nat" where
  "delete_calls [] = 0"
| "delete_calls (CreateConnectivityTest r # cs) = delete_calls cs"
| "delete_calls (DeleteConnectivityTest n # cs) = Suc (delete_calls cs)"

section \<open>The agents and the request handler (agent.ts)\<close>

datatype tool =
    fetch_network_architecture
  | identify_network_projects
  | connectivity_test_tool
  | query_vpc_flow_logs
  | manage_firewall_rule

datatype llm_agent = LlmAgent (agent_name: string) (tools: "tool list") (subAgents: "llm_agent list")

text \<open>The delegating configuration: a coordinator, the troubleshooter below it, the
  firewall administrator below the troubleshooter.\<close>

definition firewallAdminAgent :: llm_agent where
  "firewallAdminAgent = LlmAgent ''firewall_admin'' [manage_firewall_rule] []"

definition troubleshooterAgent :: llm_agent where
  "troubleshooterAgent =
     LlmAgent ''troubleshooter''
       [fetch_network_architecture, identify_network_projects, connectivity_test_tool,
        query_vpc_flow_logs]
       [firewallAdminAgent]"

definition agent :: llm_agent where
  "agent = LlmAgent ''network_support'' [] [troubleshooterAgent]"

text \<open>The other configuration in the repository: one agent that holds every tool.\<close>

definition single_agent :: llm_agent where
  "single_agent =
     LlmAgent ''network_support''
       [fetch_network_architecture, identify_network_projects, connectivity_test_tool,
        query_vpc_flow_logs, manage_firewall_rule]
       []"

subsection \<open>The runner\<close>

text \<open>
  Modelled from the spec: the \<open>Runner\<close> that drives the agents belongs to the agent
  framework, an external library whose code is not in the repository. Following the
  interface of the reasoning oracle, a decision of the oracle is a tool invocation, a
  hand-off to another role or a text answer; a role can only invoke the tools of its own
  set, and only hand off to one of its sub-agents or back to the agent it was reached
  from. A decision that is not permitted has no effect. The stack holds the active agent
  and the agents it was reached through.
\<close>

datatype decision = InvokeTool tool | TransferToAgent string | Answer string

datatype event =
    UserTurn string
  | ToolInvocation string tool
  | Handoff string string
  | AgentText string string

fun find_agent :: "string \<Rightarrow> llm_agent list \<Rightarrow> llm_agent option" where
  "find_agent n [] = None"
| "find_agent n (a # as) = (if agent_name a = n then Some a else find_agent n as)"

fun run_decisions :: "llm_agent list \<Rightarrow> decision list \<Rightarrow> event list" where
  "run_decisions stk [] = []"
| "run_decisions [] (d # ds) = []"
| "run_decisions (a # up) (InvokeTool t # ds) =
     (if t \<in> set (tools a) then ToolInvocation (agent_name a) t # run_decisions (a # up) ds
      else run_decisions (a # up) ds)"
| "run_decisions (a # up) (TransferToAgent n # ds) =
     (case find_agent n (subAgents a) of
        Some b \<Rightarrow> Handoff (agent_name a) n # run_decisions (b # a # up) ds
      | None \<Rightarrow>
         (case up of
            [] \<Rightarrow> run_decisions (a # up) ds
          | p # up' \<Rightarrow>
             if agent_name p = n then Handoff (agent_name a) n # run_decisions up ds
             else run_decisions (a # up) ds))"
| "run_decisions (a # up) (Answer txt # ds) =
     AgentText (agent_name a) txt # run_decisions (a # up) ds"

fun event_author :: "event \<Rightarrow> string" where
  "event_author (UserTurn txt) = ''user''"
| "event_author (ToolInvocation a t) = a"
| "event_author (Handoff a b) = a"
| "event_author (AgentText a txt) = a"

fun event_text :: "event \<Rightarrow> string" where
  "event_text (UserTurn txt) = txt"
| "event_text (ToolInvocation a t) = []"
| "event_text (Handoff a b) = []"
| "event_text (AgentText a txt) = txt"

fun mutation_calls :: "event list \<Rightarrow> nat" where
  "mutation_calls [] = 0"
| "mutation_calls (ToolInvocation a t # es) =
     (if t = manage_firewall_rule then Suc (mutation_calls es) else mutation_calls es)"
| "mutation_calls (e # es) = mutation_calls es"

fun mutation_authors :: "event list \<Rightarrow> string list" where
  "mutation_authors [] = []"
| "mutation_authors (ToolInvocation a t # es) =
     (if t = manage_firewall_rule then a # mutation_authors es else mutation_authors es)"
| "mutation_authors (e # es) = mutation_authors es"

subsection \<open>runAgent\<close>

text \<open>The in-memory session service: the sessions by identifier, each with the events
  recorded in it.\<close>

type_synonym session_store = "string \<rightharpoonup> event list"

definition session_id :: "nat \<Rightarrow> string" where
  "session_id now = ''session-'' @ dec now"

definition new_message :: "string \<Rightarrow> string \<Rightarrow> event" where
  "new_message prompt projectId = UserTurn (''Project ID: '' @ projectId @ ''. '' @ prompt)"

text \<open>\<open>getSession\<close>, then \<open>createSession\<close> when there is none.\<close>

definition ensure_session :: "session_store \<Rightarrow> string \<Rightarrow> session_store" where
  "ensure_session store sessionId =
     (case store sessionId of None \<Rightarrow> store(sessionId \<mapsto> []) | Some h \<Rightarrow> store)"

definition history :: "session_store \<Rightarrow> string \<Rightarrow> event list" where
  "history store sessionId = (case store sessionId of None \<Rightarrow> [] | Some h \<Rightarrow> h)"

record agent_reply =
  response :: string
  reply_details :: "event list"

text \<open>One call of \<open>runAgent(prompt, projectId)\<close> at clock value \<open>now\<close>, the oracle
  taking the given decisions: the session identifier is made from the clock, the session
  is looked up and created when missing, and the runner records the user message and the
  events of the run in that session.\<close>

definition runAgent ::
  "llm_agent \<Rightarrow> session_store \<Rightarrow> nat \<Rightarrow> string \<Rightarrow> string \<Rightarrow> decision list
     \<Rightarrow> session_store \<times> agent_reply" where
  "runAgent root store now prompt projectId decisions =
     (let sessionId = session_id now;
          newMessage = new_message prompt projectId;
          store1 = ensure_session store sessionId;
          events = run_decisions [root] decisions;
          store2 = store1(sessionId \<mapsto> history store1 sessionId @ [newMessage] @ events);
          textResponses =
            filter (\<lambda>text. length (trim text) > 0)
              (map event_text (filter (\<lambda>e. event_author e = agent_name root) events))
      in (store2, \<lparr>response = join [CHR 0x0A] textResponses, reply_details = events\<rparr>))"

subsection \<open>The confirmation gate, as a property of a session's events\<close>

text \<open>
  The phases of a session: 0, nothing proposed yet; 1, an agent has spoken (the proposal
  at the latest); 2, a user turn has followed. The weakest reading of the gate is taken:
  any agent text counts as the proposal, any later user turn as the confirmation. A
  mutating invocation is admitted in phase 2 only, and uses the confirmation up.
\<close>

fun gate :: "nat \<Rightarrow> event list \<Rightarrow> bool" where
  "gate ph [] = True"
| "gate ph (UserTurn txt # es) = gate (if ph = 1 then 2 else ph) es"
| "gate ph (AgentText a txt # es) = gate (if ph = 0 then 1 else ph) es"
| "gate ph (Handoff a b # es) = gate ph es"
| "gate ph (ToolInvocation a t # es) =
     (if t = manage_firewall_rule then ph = 2 \<and> gate 0 es else gate ph es)"

section \<open>Invariants of a discovery run\<close>

text \<open>For a set \<open>R\<close> of root projects: the roots are visited, every edge target is a
  visited project that is not a root, and no project is the target of two edges.\<close>

definition scope_inv :: "project set \<Rightarrow> scope_state \<Rightarrow> bool" where
  "scope_inv R st =
     (R \<subseteq> set (visitedProjects st)
      \<and> set (edge_targets (projectGraph st)) \<subseteq> set (visitedProjects st) - R
      \<and> distinct (edge_targets (projectGraph st)))"

text \<open>A step keeps the invariant and scans no project.\<close>

definition keeps :: "(scope_state \<Rightarrow> scope_state) \<Rightarrow> bool" where
  "keeps f = (\<forall>R st. scope_inv R st \<longrightarrow> scope_inv R (f st) \<and> scanned (f st) = scanned st)"

section \<open>Concrete scenarios\<close>

subsection \<open>Discovery\<close>

text \<open>A project with nothing in it: not a service project, no usable subnets, no assets.\<close>

definition cloud_empty :: cloud where
  "cloud_empty =
     \<lparr>getXpnHost = (\<lambda>p. Inl ''Project is not a service project''),
      listUsable = (\<lambda>p. ([], None)),
      searchResources = (\<lambda>p. Inr []),
      searchInstances = (\<lambda>p. Inr [])\<rparr>"

text \<open>A service project of the Shared VPC host \<open>proj-b\<close>: the host lookup names
  \<open>proj-b\<close>, and the one usable subnet lives in \<open>proj-b\<close>.\<close>

definition shared_subnet :: usable_subnet where
  "shared_subnet =
     \<lparr>us_subnetwork =
        Some ''https://www.googleapis.com/compute/v1/projects/proj-b/regions/us-central1/subnetworks/shared'',
      us_network = None\<rparr>"

definition cloud_subnet_only :: cloud where
  "cloud_subnet_only = cloud_empty\<lparr>listUsable := (\<lambda>p. ([shared_subnet], None))\<rparr>"

definition cloud_two_paths :: cloud where
  "cloud_two_paths = cloud_subnet_only\<lparr>getXpnHost := (\<lambda>p. Inr (Some ''proj-b''))\<rparr>"

text \<open>A forwarding rule, and an instance, whose network is in \<open>google-cloud-clients\<close>.\<close>

definition clients_network :: string where
  "clients_network =
     ''https://www.googleapis.com/compute/v1/projects/google-cloud-clients/global/networks/default''"

definition lb_rule :: resource where
  "lb_rule =
     \<lparr>assetType = ''compute.googleapis.com/ForwardingRule'', displayName = ''lb-rule'',
      attr_subnetwork = None, attr_network = Some clients_network, attrs_json = None\<rparr>"

definition cloud_rule_in_clients :: cloud where
  "cloud_rule_in_clients = cloud_empty\<lparr>searchResources := (\<lambda>p. Inr [lb_rule])\<rparr>"

definition vm_in_clients :: vm_instance where
  "vm_in_clients =
     \<lparr>inst_displayName = ''vm-1'',
      networkInterfaces = [\<lparr>nic_network = Some clients_network, nic_subnetwork = None\<rparr>]\<rparr>"

definition cloud_vm_in_clients :: cloud where
  "cloud_vm_in_clients = cloud_empty\<lparr>searchInstances := (\<lambda>p. Inr [vm_in_clients])\<rparr>"

text \<open>A root list given as one string, padded with a tab, spaces and a no-break space.\<close>

definition padded_piece :: string where
  "padded_piece = [CHR 0x09] @ '' proj-a '' @ [CHR 0xA0]"

definition padded_roots :: string where
  "padded_roots = padded_piece @ '',proj-b ''"

subsection \<open>Flow logs\<close>





subsection \<open>Firewall rules\<close>





subsection \<open>Reachability probe\<close>

definition probe_params :: connectivity_params where
  "probe_params =
     \<lparr>ct_projectId = ''proj-a'', ct_sourceIp = Some ''10.0.0.1'', ct_sourceInstance = None,
      ct_destIp = Some ''10.0.0.2'', ct_destInstance = None, ct_destinationPort = Some 80,
      ct_protocol = None\<rparr>"

text \<open>The test resource is created, and the promise of the evaluation rejects.\<close>

definition svc_evaluation_fails :: reachability_service where
  "svc_evaluation_fails =
     \<lparr>createConnectivityTest = (\<lambda>r. Inr (Inl ''Operation failed: internal error'')),
      deleteConnectivityTest = (\<lambda>n. None)\<rparr>"

subsection \<open>Conversations\<close>

text \<open>The oracle hands over to the troubleshooter, which states a cause and proposes a
  fix, hands over to the firewall administrator, and that one applies the fix.\<close>

definition unconfirmed_decisions :: "decision list" where
  "unconfirmed_decisions =
     [TransferToAgent ''troubleshooter'',
      Answer ''Port 80 is blocked. Would you like to apply this fix?'',
      TransferToAgent ''firewall_admin'',
      InvokeTool manage_firewall_rule]"

definition unconfirmed_session :: "event list" where
  "unconfirmed_session =
     history (fst (runAgent agent Map.empty 1000 ''VM a cannot reach VM b'' ''proj-a''
                     unconfirmed_decisions))
       (session_id 1000)"

text \<open>A conversation of two requests: the first ends with the proposal, the second is
  the user's reply.\<close>

definition store_after_first :: session_store where
  "store_after_first =
     fst (runAgent agent Map.empty 1000 ''VM a cannot reach VM b'' ''proj-a''
            [TransferToAgent ''troubleshooter'',
             Answer ''Port 80 is blocked. Would you like to apply this fix?''])"

definition store_after_second :: session_store where
  "store_after_second = fst (runAgent agent store_after_first 2000 ''yes'' ''proj-a'' [])"

section \<open>The string operations\<close>

text \<open>A match consumes at least the nine characters of \<open>projects/\<close>, so the search
  for all matches never runs out of fuel: any fuel from the length of the string on gives
  the same matches.\<close>

lemma match_at_shorter: "match_at stop tail s = Some (grp, rest) \<Longrightarrow> length rest < length s"
proof -
  assume m: "match_at stop tail s = Some (grp, rest)"
  then have p: "take 9 s = ''projects/''"
    by (simp add: match_at_def split: if_splits)
  then have "length (take 9 s) = 9" by simp
  then have l: "9 \<le> length s" by simp
  from m p have "rest = drop (length tail) (dropWhile (\<lambda>c. \<not> stop c) (drop 9 s))"
    by (simp add: match_at_def Let_def split: if_splits)
  then have "length rest \<le> length (dropWhile (\<lambda>c. \<not> stop c) (drop 9 s))"
    by simp
  also have "\<dots> \<le> length (drop 9 s)"
    by (rule length_dropWhile_le)
  also have "\<dots> < length s"
    using l by simp
  finally show ?thesis .
qed

lemma all_matches_from_Cons:
  "all_matches_from (Suc k) stop tail (c # cs)
     = (case match_at stop tail (c # cs) of
          Some (grp, rest) \<Rightarrow> grp # all_matches_from k stop tail rest
        | None \<Rightarrow> all_matches_from k stop tail cs)"
  by simp

lemma all_matches_from_fuel:
  "length s \<le> k \<Longrightarrow> all_matches_from k stop tail s = all_matches_from (length s) stop tail s"
proof (induction s arbitrary: k rule: length_induct)
  case (1 s)
  have ih: "all_matches_from j stop tail t = all_matches_from (length t) stop tail t"
    if "length t < length s" and "length t \<le> j" for t j
    using "1.IH" that by blast
  show ?case
  proof (cases s)
    case Nil
    then show ?thesis by (cases k) simp_all
  next
    case (Cons c cs)
    with "1.prems" obtain k' where k: "k = Suc k'" and le: "length cs \<le> k'"
      by (cases k) simp_all
    have cs: "length cs < length s"
      by (simp only: Cons length_Cons lessI)
    show ?thesis
    proof (cases "match_at stop tail (c # cs)")
      case None
      have "all_matches_from k stop tail s = all_matches_from k' stop tail cs"
        by (simp only: k Cons all_matches_from_Cons None option.case)
      also have "\<dots> = all_matches_from (length cs) stop tail cs"
        by (rule ih [OF cs le])
      also have "\<dots> = all_matches_from (length s) stop tail s"
        by (simp only: Cons length_Cons all_matches_from_Cons None option.case)
      finally show ?thesis .
    next
      case (Some m)
      obtain grp rest where m: "m = (grp, rest)" by (cases m)
      from Some m have mt: "match_at stop tail (c # cs) = Some (grp, rest)"
        by (simp only:)
      from match_at_shorter [OF mt] have r: "length rest \<le> length cs"
        by (simp only: length_Cons less_Suc_eq_le)
      from r cs have shorter: "length rest < length s"
        by (rule le_less_trans)
      from r le have le': "length rest \<le> k'"
        by (rule le_trans)
      have "all_matches_from k stop tail s = grp # all_matches_from k' stop tail rest"
        by (simp only: k Cons all_matches_from_Cons mt option.case prod.case)
      also have "\<dots> = grp # all_matches_from (length rest) stop tail rest"
        by (simp only: ih [OF shorter le'])
      also have "\<dots> = grp # all_matches_from (length cs) stop tail rest"
        by (simp only: ih [OF shorter r])
      also have "\<dots> = all_matches_from (length s) stop tail s"
        by (simp only: Cons length_Cons all_matches_from_Cons mt option.case prod.case)
      finally show ?thesis .
    qed
  qed
qed

text \<open>The patterns and the split on examples.\<close>

lemma url_project_example:
  "url_project ''https://www.googleapis.com/compute/v1/projects/proj-b/global/networks/vpc''
     = Some ''proj-b''
   \<and> url_project ''projects/proj-b'' = None
   \<and> url_project ''projects//networks/vpc'' = None"
  by code_simp

lemma split_trim_example:
  "map trim (split CHR '','' '' proj-a ,proj-b,'') = [''proj-a'', ''proj-b'', '''']
   \<and> map trim (split CHR '','' '''') = ['''']"
  by code_simp

text \<open>The split at a separator: the pieces hold no separator, and put together with
  the separator between them they are the string.\<close>

lemma split_not_Nil: "split sep s \<noteq> []"
  by (induction s) (simp_all split: list.splits)

lemma join_Cons_Cons: "join sep ((c # p) # ps) = c # join sep (p # ps)"
  by (cases ps) simp_all

lemma join_split: "join [sep] (split sep s) = s"
proof (induction s)
  case Nil
  show ?case by simp
next
  case (Cons c cs)
  obtain p ps where sp: "split sep cs = p # ps"
    using split_not_Nil [of sep cs] by (cases "split sep cs") simp_all
  show ?case
  proof (cases "c = sep")
    case True
    with sp Cons.IH show ?thesis by simp
  next
    case False
    with sp Cons.IH show ?thesis by (simp add: join_Cons_Cons)
  qed
qed

lemma split_no_sep: "list_all (\<lambda>q. sep \<notin> set q) (split sep s)"
  by (induction s) (auto split: list.splits)

text \<open>The trimmed string: what is left of the string between a leading and a trailing
  run of white space, and it neither starts nor ends with white space.\<close>

lemma trim_decomposition:
  "\<exists>pre suf. q = pre @ trim q @ suf \<and> list_all is_space pre \<and> list_all is_space suf"
proof -
  define r where "r = dropWhile is_space q"
  have 1: "q = takeWhile is_space q @ r"
    by (simp add: r_def)
  have "rev (dropWhile is_space (rev r)) @ rev (takeWhile is_space (rev r))
          = rev (takeWhile is_space (rev r) @ dropWhile is_space (rev r))"
    by (simp only: rev_append)
  also have "\<dots> = rev (rev r)"
    by (simp only: takeWhile_dropWhile_id)
  also have "\<dots> = r"
    by (simp only: rev_rev_ident)
  finally have 2: "r = trim q @ rev (takeWhile is_space (rev r))"
    by (simp only: trim_def r_def)
  have 3: "list_all is_space (takeWhile is_space q)"
    by (simp add: list_all_iff) (meson set_takeWhileD)
  have 4: "list_all is_space (rev (takeWhile is_space (rev r)))"
    by (simp add: list_all_iff) (meson set_takeWhileD)
  from 1 2 have "q = takeWhile is_space q @ trim q @ rev (takeWhile is_space (rev r))"
    by simp
  with 3 4 show ?thesis by blast
qed

lemma last_dropWhile: "dropWhile P xs \<noteq> [] \<Longrightarrow> last (dropWhile P xs) = last xs"
  by (induction xs) (auto split: if_splits)

lemma trim_ends:
  assumes "trim q \<noteq> []"
  shows "\<not> is_space (hd (trim q)) \<and> \<not> is_space (last (trim q))"
proof -
  define r where "r = dropWhile is_space q"
  define d where "d = dropWhile is_space (rev r)"
  have t: "trim q = rev d"
    by (simp add: trim_def r_def d_def)
  with assms have d: "d \<noteq> []" by simp
  then have r: "r \<noteq> []" by (auto simp: d_def)
  have "last (trim q) = hd d"
    using d by (simp add: t last_rev)
  moreover have "\<not> is_space (hd d)"
    using d unfolding d_def by (rule hd_dropWhile)
  moreover have "hd (trim q) = last d"
    using d by (simp add: t hd_rev)
  moreover have "last d = last (rev r)"
    using d unfolding d_def by (rule last_dropWhile)
  moreover have "last (rev r) = hd r"
    using r by (simp add: last_rev)
  moreover have "\<not> is_space (hd r)"
    using r unfolding r_def by (rule hd_dropWhile)
  ultimately show ?thesis by simp
qed

section \<open>Discovery: every extraction site keeps the invariant\<close>

lemma edge_targets_append: "edge_targets (xs @ ys) = edge_targets xs @ edge_targets ys"
  by (induction xs rule: edge_targets.induct) simp_all

lemma keepsD:
  "keeps f \<Longrightarrow> scope_inv R st \<Longrightarrow> scope_inv R (f st) \<and> scanned (f st) = scanned st"
  by (simp add: keeps_def)

lemma keeps_add_link: "keeps (add_link p d why)"
  by (auto simp: keeps_def add_link_def scope_inv_def edge_targets_append)

lemma keeps_push_error: "keeps (push_error p msg)"
  by (auto simp: keeps_def push_error_def scope_inv_def edge_targets_append)

lemma keeps_fold: "(\<And>x. keeps (f x)) \<Longrightarrow> keeps (fold f xs)"
proof (induction xs)
  case Nil
  show ?case by (simp add: keeps_def)
next
  case (Cons x xs)
  have a: "keeps (f x)" by (rule Cons.prems)
  have b: "keeps (fold f xs)" by (rule Cons.IH) (rule Cons.prems)
  show ?case unfolding keeps_def
  proof (intro allI impI)
    fix R st assume i: "scope_inv R st"
    from a i have 1: "scope_inv R (f x st)" "scanned (f x st) = scanned st"
      by (simp_all add: keeps_def)
    from b 1(1) have "scope_inv R (fold f xs (f x st))"
      and "scanned (fold f xs (f x st)) = scanned (f x st)"
      by (simp_all add: keeps_def)
    with 1 show "scope_inv R (fold f (x # xs) st) \<and> scanned (fold f (x # xs) st) = scanned st"
      by simp
  qed
qed

lemma keeps_xpn: "keeps (scan_xpn_host c p)"
  using keeps_add_link
  by (auto simp: keeps_def scan_xpn_host_def split: sum.splits option.splits)

lemma keeps_usable_subnet: "keeps (scan_usable_subnet p sn)"
  using keeps_add_link
  by (auto simp: keeps_def scan_usable_subnet_def split: sum.splits option.splits)

lemma keeps_usable: "keeps (scan_usable c p)"
  unfolding scan_usable_def by (rule keeps_fold) (rule keeps_usable_subnet)

lemma keeps_rule_uri: "keeps (scan_rule_uri p n u)"
  using keeps_add_link
  by (auto simp: keeps_def scan_rule_uri_def split: option.splits)

lemma keeps_resource: "keeps (scan_resource p r)"
proof -
  have "keeps (fold (scan_rule_uri p (displayName r))
                 (strings_of [attr_subnetwork r, attr_network r]))"
    by (rule keeps_fold) (rule keeps_rule_uri)
  then show ?thesis by (simp add: keeps_def scan_resource_def)
qed

lemma keeps_nic_uri: "keeps (scan_nic_uri p n u)"
  using keeps_add_link
  by (auto simp: keeps_def scan_nic_uri_def split: option.splits)

lemma keeps_nic: "keeps (scan_nic p n i)"
  unfolding scan_nic_def by (rule keeps_fold) (rule keeps_nic_uri)

lemma keeps_instance: "keeps (scan_instance p i)"
  unfolding scan_instance_def by (rule keeps_fold) (rule keeps_nic)

lemma keeps_peer: "keeps (scan_peer p n d)"
  using keeps_add_link by (auto simp: keeps_def scan_peer_def)

lemma keeps_network: "keeps (scan_network p n)"
proof (cases "attrs_json n")
  case None
  then show ?thesis by (simp add: keeps_def scan_network_def)
next
  case (Some js)
  have "keeps (fold (scan_peer p (displayName n)) (json_network_projects js))"
    by (rule keeps_fold) (rule keeps_peer)
  with Some show ?thesis by (simp add: keeps_def scan_network_def)
qed

lemma keeps_ic_ref: "keeps (scan_ic_ref p n d)"
  using keeps_add_link by (auto simp: keeps_def scan_ic_ref_def)

lemma keeps_interconnect: "keeps (scan_interconnect p i)"
  unfolding scan_interconnect_def by (rule keeps_fold) (rule keeps_ic_ref)

text \<open>One pass of the loop body keeps the invariant and scans exactly its project,
  whichever of its API calls fail.\<close>

lemma scan_project_inv:
  assumes "scope_inv R st"
  shows "scope_inv R (scan_project c p st) \<and> scanned (scan_project c p st) = scanned st @ [p]"
proof -
  define st1 where "st1 = st\<lparr>scanned := scanned st @ [p]\<rparr>"
  define st3 where "st3 = scan_usable c p (scan_xpn_host c p st1)"
  have i1: "scope_inv R st1" "scanned st1 = scanned st @ [p]"
    using assms by (simp_all add: st1_def scope_inv_def)
  have i2: "scope_inv R (scan_xpn_host c p st1) \<and> scanned (scan_xpn_host c p st1) = scanned st1"
    by (rule keepsD [OF keeps_xpn i1(1)])
  have i3: "scope_inv R st3 \<and> scanned st3 = scanned st @ [p]"
    using keepsD [OF keeps_usable, of R "scan_xpn_host c p st1" c p] i2 i1 by (simp add: st3_def)
  show ?thesis
  proof (cases "searchResources c p")
    case (Inl msg)
    then have "scan_project c p st = push_error p msg st3"
      by (simp add: scan_project_def st3_def st1_def)
    then show ?thesis using keepsD [OF keeps_push_error, of R st3 p msg] i3 by simp
  next
    case found: (Inr resources)
    define st4 where "st4 = fold (scan_resource p) resources st3"
    have i4: "scope_inv R st4 \<and> scanned st4 = scanned st @ [p]"
      using keepsD [OF keeps_fold [of "scan_resource p", OF keeps_resource], of R st3 resources] i3
      by (simp add: st4_def)
    show ?thesis
    proof (cases "searchInstances c p")
      case (Inl msg)
      then have "scan_project c p st = push_error p msg st4"
        using found by (simp add: scan_project_def st4_def st3_def st1_def)
      then show ?thesis using keepsD [OF keeps_push_error, of R st4 p msg] i4 by simp
    next
      case (Inr instances)
      define st5 where "st5 = fold (scan_instance p) instances st4"
      define networks where
        "networks = filter (\<lambda>r. assetType r = ''compute.googleapis.com/Network'') resources"
      define st6 where "st6 = fold (scan_network p) networks st5"
      define ics where
        "ics = filter (\<lambda>r. assetType r = ''compute.googleapis.com/InterconnectAttachment'')
                 resources"
      have i5: "scope_inv R st5 \<and> scanned st5 = scanned st @ [p]"
        using keepsD [OF keeps_fold [of "scan_instance p", OF keeps_instance], of R st4 instances]
          i4
        by (simp add: st5_def)
      have i6: "scope_inv R st6 \<and> scanned st6 = scanned st @ [p]"
        using keepsD [OF keeps_fold [of "scan_network p", OF keeps_network], of R st5 networks] i5
        by (simp add: st6_def)
      have i7: "scope_inv R (fold (scan_interconnect p) ics st6)
                \<and> scanned (fold (scan_interconnect p) ics st6) = scanned st @ [p]"
        using keepsD [OF keeps_fold [of "scan_interconnect p", OF keeps_interconnect],
            of R st6 ics] i6
        by simp
      have "scan_project c p st = fold (scan_interconnect p) ics st6"
        using Inr found
        by (simp add: scan_project_def st6_def st5_def st4_def st3_def st1_def networks_def
            ics_def Let_def)
      then show ?thesis using i7 by simp
    qed
  qed
qed

lemma scan_all_inv:
  "scope_inv R st \<Longrightarrow>
   scope_inv R (fold (scan_project c) ps st)
   \<and> scanned (fold (scan_project c) ps st) = scanned st @ ps"
proof (induction ps arbitrary: st)
  case Nil
  then show ?case by simp
next
  case (Cons p ps)
  from scan_project_inv [OF Cons.prems, of c p]
  have a: "scope_inv R (scan_project c p st)"
    and b: "scanned (scan_project c p st) = scanned st @ [p]"
    by simp_all
  from Cons.IH [OF a] b show ?case by simp
qed

lemma set_foldl_set_add: "set (foldl set_add acc xs) = set acc \<union> set xs"
  by (induction xs arbitrary: acc) (auto simp: set_add_def)

lemma set_new_Set: "set (new_Set xs) = set xs"
  by (simp add: new_Set_def set_foldl_set_add)

lemma distinct_foldl_set_add: "distinct acc \<Longrightarrow> distinct (foldl set_add acc xs)"
  by (induction xs arbitrary: acc) (auto simp: set_add_def)

lemma distinct_new_Set: "distinct (new_Set xs)"
  by (simp add: new_Set_def distinct_foldl_set_add)

lemma detect_inv:
  "set (start_projects inp) \<subseteq> set (detectedScope (detectAgentScope c inp))
   \<and> set (edge_targets (relationships (detectAgentScope c inp)))
        \<subseteq> set (detectedScope (detectAgentScope c inp)) - set (start_projects inp)
   \<and> distinct (edge_targets (relationships (detectAgentScope c inp)))
   \<and> scannedProjects (detectAgentScope c inp) = start_projects inp"
proof -
  let ?init = "\<lparr>visitedProjects = new_Set (start_projects inp), projectGraph = [], scanned = []\<rparr>"
  have "scope_inv (set (start_projects inp)) ?init"
    by (simp add: scope_inv_def set_new_Set)
  from scan_all_inv [OF this, of c "start_projects inp"]
  show ?thesis by (simp add: detectAgentScope_def Let_def scope_inv_def)
qed

text \<open>No root project is ever the target of an edge: the visited set starts as the set of
  roots, and an edge is only added for a project that is not visited yet.\<close>

lemma no_root_is_edge_target:
  "set (edge_targets (relationships (detectAgentScope c inp))) \<inter> set (start_projects inp) = {}"
  using detect_inv [of inp c] by auto

section \<open>Discovery: the run records the first detection of every target\<close>

lemma record_all_append: "record_all (xs @ ys) st = record_all ys (record_all xs st)"
  by (simp add: record_all_def)

lemma record_all_Nil: "record_all [] st = st"
  by (simp add: record_all_def)

lemma record_all_edge: "record_all [Edge s t r] st = add_link s t r st"
  by (simp add: record_all_def)

lemma record_all_error: "record_all [ScanError s m] st = push_error s m st"
  by (simp add: record_all_def)

lemma fold_record_all:
  "(\<And>x st. f x st = record_all (g x) st) \<Longrightarrow>
   fold f xs st = record_all (concat (map g xs)) st"
  by (induction xs arbitrary: st) (simp_all add: record_all_Nil record_all_append)

lemma scan_xpn_host_detections:
  "scan_xpn_host c p st = record_all (xpn_detections c p) st"
  by (simp add: scan_xpn_host_def xpn_detections_def record_all_Nil record_all_edge
      split: sum.splits option.splits)

lemma scan_usable_subnet_detections:
  "scan_usable_subnet p sn st = record_all (subnet_detections p sn) st"
  by (simp add: scan_usable_subnet_def subnet_detections_def record_all_Nil record_all_edge
      split: option.splits)

lemma scan_usable_detections:
  "scan_usable c p st
     = record_all (concat (map (subnet_detections p) (fst (listUsable c p)))) st"
  unfolding scan_usable_def by (rule fold_record_all) (rule scan_usable_subnet_detections)

lemma scan_rule_uri_detections:
  "scan_rule_uri p n u st = record_all (rule_uri_detections p n u) st"
  by (simp add: scan_rule_uri_def rule_uri_detections_def record_all_Nil record_all_edge
      split: option.splits)

lemma scan_resource_detections:
  "scan_resource p r st = record_all (resource_detections p r) st"
proof -
  have "fold (scan_rule_uri p (displayName r)) us st
          = record_all (concat (map (rule_uri_detections p (displayName r)) us)) st" for us
    by (rule fold_record_all) (rule scan_rule_uri_detections)
  then show ?thesis
    by (simp add: scan_resource_def resource_detections_def record_all_Nil)
qed

lemma scan_nic_uri_detections:
  "scan_nic_uri p n u st = record_all (nic_uri_detections p n u) st"
  by (simp add: scan_nic_uri_def nic_uri_detections_def record_all_Nil record_all_edge
      split: option.splits)

lemma scan_nic_detections:
  "scan_nic p n i st
     = record_all (concat (map (nic_uri_detections p n)
                             (strings_of [nic_network i, nic_subnetwork i]))) st"
  unfolding scan_nic_def by (rule fold_record_all) (rule scan_nic_uri_detections)

lemma scan_instance_detections:
  "scan_instance p i st = record_all (instance_detections p i) st"
  unfolding scan_instance_def instance_detections_def
  by (rule fold_record_all) (rule scan_nic_detections)

lemma scan_peer_detections:
  "scan_peer p n d st = record_all (peer_detections p n d) st"
  by (simp add: scan_peer_def peer_detections_def record_all_Nil record_all_edge)

lemma scan_network_detections:
  "scan_network p n st = record_all (network_detections p n) st"
proof (cases "attrs_json n")
  case None
  then show ?thesis
    by (simp add: scan_network_def network_detections_def record_all_Nil)
next
  case (Some js)
  have "fold (scan_peer p (displayName n)) (json_network_projects js) st
          = record_all (concat (map (peer_detections p (displayName n))
                                  (json_network_projects js))) st"
    by (rule fold_record_all) (rule scan_peer_detections)
  with Some show ?thesis
    by (simp add: scan_network_def network_detections_def)
qed

lemma scan_ic_ref_detections:
  "scan_ic_ref p n d st = record_all (ic_ref_detections p n d) st"
  by (simp add: scan_ic_ref_def ic_ref_detections_def record_all_Nil record_all_edge)

lemma scan_interconnect_detections:
  "scan_interconnect p i st = record_all (interconnect_detections p i) st"
  unfolding scan_interconnect_def interconnect_detections_def
  by (rule fold_record_all) (rule scan_ic_ref_detections)

text \<open>The loop body records the detections of its project, in order.\<close>

lemma scan_project_detections:
  "scan_project c p st = record_all (detections c p) (st\<lparr>scanned := scanned st @ [p]\<rparr>)"
proof -
  define st1 where "st1 = st\<lparr>scanned := scanned st @ [p]\<rparr>"
  define d12 where
    "d12 = xpn_detections c p @ concat (map (subnet_detections p) (fst (listUsable c p)))"
  define st3 where "st3 = scan_usable c p (scan_xpn_host c p st1)"
  have s3: "st3 = record_all d12 st1"
    by (simp add: st3_def d12_def scan_xpn_host_detections scan_usable_detections
        record_all_append)
  show ?thesis
  proof (cases "searchResources c p")
    case (Inl msg)
    then have "scan_project c p st = push_error p msg st3"
      by (simp add: scan_project_def st3_def st1_def)
    also have "\<dots> = record_all (d12 @ [ScanError p msg]) st1"
      by (simp add: s3 record_all_append record_all_error)
    also have "d12 @ [ScanError p msg] = detections c p"
      using Inl by (simp add: detections_def d12_def)
    finally show ?thesis by (simp only: st1_def)
  next
    case found: (Inr resources)
    define d4 where "d4 = concat (map (resource_detections p) resources)"
    define st4 where "st4 = fold (scan_resource p) resources st3"
    have s4: "st4 = record_all (d12 @ d4) st1"
      unfolding st4_def d4_def
      by (simp add: fold_record_all [of "scan_resource p" "resource_detections p",
            OF scan_resource_detections] s3 record_all_append)
    show ?thesis
    proof (cases "searchInstances c p")
      case (Inl msg)
      then have "scan_project c p st = push_error p msg st4"
        using found by (simp add: scan_project_def st4_def st3_def st1_def)
      also have "\<dots> = record_all ((d12 @ d4) @ [ScanError p msg]) st1"
        by (simp only: s4 record_all_append record_all_error)
      also have "(d12 @ d4) @ [ScanError p msg] = detections c p"
        using Inl found by (simp add: detections_def d12_def d4_def)
      finally show ?thesis by (simp only: st1_def)
    next
      case (Inr instances)
      define networks where
        "networks = filter (\<lambda>r. assetType r = ''compute.googleapis.com/Network'') resources"
      define ics where
        "ics = filter (\<lambda>r. assetType r = ''compute.googleapis.com/InterconnectAttachment'')
                 resources"
      define d5 where "d5 = concat (map (instance_detections p) instances)"
      define d6 where "d6 = concat (map (network_detections p) networks)"
      define d7 where "d7 = concat (map (interconnect_detections p) ics)"
      have "scan_project c p st
              = fold (scan_interconnect p) ics
                  (fold (scan_network p) networks (fold (scan_instance p) instances st4))"
        using Inr found
        by (simp add: scan_project_def st4_def st3_def st1_def networks_def ics_def Let_def)
      also have "\<dots> = record_all d7 (record_all d6 (record_all d5 st4))"
        unfolding d5_def d6_def d7_def
        by (simp only:
            fold_record_all [of "scan_instance p" "instance_detections p",
              OF scan_instance_detections]
            fold_record_all [of "scan_network p" "network_detections p",
              OF scan_network_detections]
            fold_record_all [of "scan_interconnect p" "interconnect_detections p",
              OF scan_interconnect_detections])
      also have "\<dots> = record_all ((d12 @ d4) @ d5 @ d6 @ d7) st1"
        by (simp only: s4 record_all_append)
      also have "(d12 @ d4) @ d5 @ d6 @ d7 = detections c p"
        using Inr found
        by (simp add: detections_def d12_def d4_def d5_def d6_def d7_def networks_def ics_def)
      finally show ?thesis by (simp only: st1_def)
    qed
  qed
qed

text \<open>Recording detections appends, to the graph and to the visited set, what the
  visited-gate keeps of them.\<close>

lemma record_all_effect:
  "projectGraph (record_all ds st) = projectGraph st @ keep_first (visitedProjects st) ds
   \<and> visitedProjects (record_all ds st)
       = visitedProjects st @ edge_targets (keep_first (visitedProjects st) ds)"
proof (induction ds arbitrary: st)
  case Nil
  show ?case by (simp add: record_all_def)
next
  case (Cons d ds)
  have step: "record_all (d # ds) st = record_all ds (record_one d st)"
    by (simp add: record_all_def)
  show ?case
  proof (cases d)
    case (Edge s t r)
    show ?thesis
    proof (cases "t \<in> set (visitedProjects st)")
      case True
      then have "record_one d st = st"
        by (simp add: Edge add_link_def)
      with Cons.IH [of st] True Edge step show ?thesis by simp
    next
      case False
      then have g: "projectGraph (record_one d st) = projectGraph st @ [Edge s t r]"
        and v: "visitedProjects (record_one d st) = visitedProjects st @ [t]"
        by (simp_all add: Edge add_link_def)
      from Cons.IH [of "record_one d st"] g v False Edge step show ?thesis by simp
    qed
  next
    case (ScanError s m)
    then have g: "projectGraph (record_one d st) = projectGraph st @ [ScanError s m]"
      and v: "visitedProjects (record_one d st) = visitedProjects st"
      by (simp_all add: push_error_def)
    from Cons.IH [of "record_one d st"] g v ScanError step show ?thesis by simp
  qed
qed

lemma keep_first_append:
  "keep_first v (xs @ ys)
     = keep_first v xs @ keep_first (v @ edge_targets (keep_first v xs)) ys"
  by (induction v xs rule: keep_first.induct) simp_all

lemma scan_all_detections:
  "projectGraph (fold (scan_project c) ps st)
     = projectGraph st @ keep_first (visitedProjects st) (concat (map (detections c) ps))
   \<and> visitedProjects (fold (scan_project c) ps st)
       = visitedProjects st
         @ edge_targets (keep_first (visitedProjects st) (concat (map (detections c) ps)))"
proof (induction ps arbitrary: st)
  case Nil
  show ?case by simp
next
  case (Cons p ps)
  define st' where "st' = scan_project c p st"
  have g: "projectGraph st' = projectGraph st @ keep_first (visitedProjects st) (detections c p)"
    and v: "visitedProjects st'
              = visitedProjects st
                @ edge_targets (keep_first (visitedProjects st) (detections c p))"
    using record_all_effect [of "detections c p" "st\<lparr>scanned := scanned st @ [p]\<rparr>"]
    by (simp_all add: st'_def scan_project_detections)
  from Cons.IH [of st'] show ?case
    by (simp add: st'_def [symmetric] g v keep_first_append edge_targets_append)
qed

section \<open>Discovery: the claims\<close>

text \<open>
  C9. For every discovery run on any list of root projects: the returned visited set
  (\<open>detectedScope\<close>) contains every root project, the target of every edge of the
  returned relationships is in the visited set, and the projects scanned are exactly the
  root projects, in input order: a discovered target is never scanned. The run is a
  structural recursion over the roots and over the finite answers of the APIs, so it
  terminates: \<open>detectAgentScope\<close> is a total function.
\<close>

theorem detectAgentScope_visited_and_frontier:
  "set roots \<subseteq> set (detectedScope (detectAgentScope c (RootArray roots)))
   \<and> set (edge_targets (relationships (detectAgentScope c (RootArray roots))))
        \<subseteq> set (detectedScope (detectAgentScope c (RootArray roots)))
   \<and> scannedProjects (detectAgentScope c (RootArray roots)) = roots"
  using detect_inv [of "RootArray roots" c] by (auto simp: start_projects_def)

text \<open>
  C5, as the spec states it: when the same (source, target) pair is detected through two
  code paths with distinct reasons, both edges appear. The code does otherwise. For a
  service project whose host lookup and whose usable subnet both point to \<open>proj-b\<close>,
  the subnet path alone yields its edge, but with both paths only the edge of the first
  path is returned.
\<close>

theorem second_reason_suppressed_counterexample:
  "relationships (detectAgentScope cloud_subnet_only (RootArray [''proj-a'']))
     = [Edge ''proj-a'' ''proj-b''
          (''Project has usable subnet '' @ ''https://www.googleapis.com/compute/v1/projects/proj-b/regions/us-central1/subnetworks/shared'' @ '' from Host Project proj-b'')]
   \<and> relationships (detectAgentScope cloud_two_paths (RootArray [''proj-a'']))
     = [Edge ''proj-a'' ''proj-b''
          ''Project is a Service Project attached to Host Project proj-b'']"
  by code_simp

text \<open>
  C5, amended: the returned relationships are the detections of the run, in scan order
  (root by root; within a root the host lookup, the usable subnets, the forwarding
  rules, the instance interfaces, the peerings, the interconnect attachments), passed
  through the visited-gate: a detection is recorded exactly when its target is neither a
  root nor the target of an earlier detection, and every later detection of that target,
  from any source, through any path and with any reason, is dropped. So the visited set
  is the roots followed by the edge targets, and no project is the target of two edges.
\<close>

theorem edges_are_first_detections:
  "relationships (detectAgentScope c inp)
     = keep_first (new_Set (start_projects inp))
         (concat (map (detections c) (start_projects inp)))
   \<and> detectedScope (detectAgentScope c inp)
       = new_Set (start_projects inp) @ edge_targets (relationships (detectAgentScope c inp))
   \<and> distinct (edge_targets (relationships (detectAgentScope c inp)))"
proof -
  let ?init = "\<lparr>visitedProjects = new_Set (start_projects inp), projectGraph = [], scanned = []\<rparr>"
  from scan_all_detections [of c "start_projects inp" ?init]
  have "relationships (detectAgentScope c inp)
          = keep_first (new_Set (start_projects inp))
              (concat (map (detections c) (start_projects inp)))"
    and "detectedScope (detectAgentScope c inp)
          = new_Set (start_projects inp)
            @ edge_targets (keep_first (new_Set (start_projects inp))
                              (concat (map (detections c) (start_projects inp))))"
    by (simp_all add: detectAgentScope_def Let_def)
  moreover have "distinct (edge_targets (relationships (detectAgentScope c inp)))"
    using detect_inv [of inp c] by simp
  ultimately show ?thesis by simp
qed

text \<open>
  C4 at a failing input: root \<open>proj-a\<close> has a forwarding rule whose network is in
  \<open>google-cloud-clients\<close>. The forwarding-rule site does not consult the deny-list, and
  the deny-listed project is returned as an edge target. The same URI on an instance's
  network interface, the one site that checks the deny-list, yields no edge.
\<close>

theorem deny_list_missing_at_forwarding_rules:
  "relationships (detectAgentScope cloud_rule_in_clients (RootArray [''proj-a'']))
     = [Edge ''proj-a'' ''google-cloud-clients''
          ''ForwardingRule lb-rule uses network/subnet in google-cloud-clients'']
   \<and> relationships (detectAgentScope cloud_vm_in_clients (RootArray [''proj-a''])) = []"
  by code_simp

text \<open>
  C10. \<open>detectAgentScope\<close> takes \<open>rootProjects\<close> as an array of strings, whose
  elements it scans as they are, or as one string, which it splits at the commas and
  whose pieces it trims: the pieces hold no comma and, joined with commas, are the
  string; a trimmed piece is the piece without a leading and a trailing run of white
  space, and neither starts nor ends with white space. For any other value it scans
  nothing and returns an empty \<open>detectedScope\<close> and empty \<open>relationships\<close>, without
  raising.
\<close>

theorem detectAgentScope_root_input:
  "scannedProjects (detectAgentScope c (RootArray ps)) = ps
   \<and> detectAgentScope c (RootString s)
       = detectAgentScope c (RootArray (map trim (split CHR '','' s)))
   \<and> join '','' (split CHR '','' s) = s
   \<and> list_all (\<lambda>piece. CHR '','' \<notin> set piece) (split CHR '','' s)
   \<and> (\<exists>pre suf. q = pre @ trim q @ suf \<and> list_all is_space pre \<and> list_all is_space suf)
   \<and> (trim q = [] \<or> (\<not> is_space (hd (trim q)) \<and> \<not> is_space (last (trim q))))
   \<and> detectAgentScope c RootOther
       = \<lparr>detectedScope = [], relationships = [], scannedProjects = []\<rparr>"
proof -
  have "scannedProjects (detectAgentScope c (RootArray ps)) = ps"
    using detect_inv [of "RootArray ps" c] by (simp add: start_projects_def)
  moreover have "detectAgentScope c (RootString s)
                   = detectAgentScope c (RootArray (map trim (split CHR '','' s)))"
    by (simp add: detectAgentScope_def start_projects_def)
  moreover have "join '','' (split CHR '','' s) = s"
    by (rule join_split)
  moreover have "list_all (\<lambda>piece. CHR '','' \<notin> set piece) (split CHR '','' s)"
    by (rule split_no_sep)
  moreover have "\<exists>pre suf. q = pre @ trim q @ suf \<and> list_all is_space pre \<and> list_all is_space suf"
    by (rule trim_decomposition)
  moreover have "trim q = [] \<or> (\<not> is_space (hd (trim q)) \<and> \<not> is_space (last (trim q)))"
    using trim_ends [of q] by blast
  moreover have "detectAgentScope c RootOther
                   = \<lparr>detectedScope = [], relationships = [], scannedProjects = []\<rparr>"
    by (simp add: detectAgentScope_def start_projects_def new_Set_def)
  ultimately show ?thesis by (intro conjI)
qed

text \<open>The witness: a string with a tab, spaces and a no-break space around its two
  pieces.\<close>

theorem detectAgentScope_root_input_witness:
  "trim padded_piece \<noteq> []
   \<and> \<not> is_space (hd (trim padded_piece)) \<and> \<not> is_space (last (trim padded_piece))
   \<and> trim padded_piece = ''proj-a''
   \<and> split CHR '','' padded_roots = [padded_piece, ''proj-b '']
   \<and> scannedProjects (detectAgentScope cloud_empty (RootString padded_roots))
       = [''proj-a'', ''proj-b'']"
proof -
  have t: "trim padded_piece = ''proj-a''"
    by code_simp
  have s: "split CHR '','' padded_roots = [padded_piece, ''proj-b '']"
    by code_simp
  have b: "trim ''proj-b '' = ''proj-b''"
    by code_simp
  from detectAgentScope_root_input
         [of cloud_empty "map trim (split CHR '','' padded_roots)" padded_roots padded_piece]
  have e: "trim padded_piece = []
           \<or> (\<not> is_space (hd (trim padded_piece)) \<and> \<not> is_space (last (trim padded_piece)))"
    and r: "detectAgentScope cloud_empty (RootString padded_roots)
              = detectAgentScope cloud_empty (RootArray (map trim (split CHR '','' padded_roots)))"
    and a: "scannedProjects (detectAgentScope cloud_empty
                               (RootArray (map trim (split CHR '','' padded_roots))))
              = map trim (split CHR '','' padded_roots)"
    by blast+
  from t have n: "trim padded_piece \<noteq> []" by simp
  from e n have "\<not> is_space (hd (trim padded_piece)) \<and> \<not> is_space (last (trim padded_piece))"
    by blast
  moreover from r a s t b
  have "scannedProjects (detectAgentScope cloud_empty (RootString padded_roots))
          = [''proj-a'', ''proj-b'']"
    by simp
  ultimately show ?thesis using n t s by blast
qed

section \<open>Flow-log correlation: the loop over the projects\<close>

lemma fold_query_project_queried:
  "queried (fold (query_project bq sIp dIp lim hrs) ps st) = queried st @ ps"
  by (induction ps arbitrary: st)
     (simp_all add: query_project_def Let_def split: sum.splits)

lemma fold_query_project_errors:
  "errors (fold (query_project bq sIp dIp lim hrs) ps st)
     = errors st @ query_failures (\<lambda>p. bq p sIp dIp lim hrs) ps"
  by (induction ps arbitrary: st)
     (simp_all add: query_project_def Let_def split: sum.splits)




lemma query_failures_failed:
  "(p, m) \<in> set (query_failures q ps) \<longleftrightarrow> p \<in> set ps \<and> q p = Inl m"
  by (induction ps) (auto split: sum.splits)

lemma query_failures_once:
  "distinct ps \<Longrightarrow>
   length (filter (\<lambda>e. fst e = p) (query_failures q ps))
     = (if p \<in> set ps \<and> isl (q p) then 1 else 0)"
proof (induction ps)
  case Nil
  show ?case by simp
next
  case (Cons a ps)
  then have d: "a \<notin> set ps" and ih:
    "length (filter (\<lambda>e. fst e = p) (query_failures q ps))
       = (if p \<in> set ps \<and> isl (q p) then 1 else 0)"
    by simp_all
  show ?case
  proof (cases "q a")
    case (Inl m)
    then show ?thesis using d ih by auto
  next
    case (Inr rows)
    then show ?thesis using d ih by auto
  qed
qed










lemma queryVpcFlowLogs_fields:
  "records (queryVpcFlowLogs bq params)
     = slice0 (sort_desc (results (fold (query_project bq (sourceIp params) (destIp params)
                                          (flow_limit params) (flow_hours params))
                                     (new_Set (projects params))
                                     \<lparr>results = [], errors = [], queried = []\<rparr>)))
         (flow_limit params)"
  "failure_entries (queryVpcFlowLogs bq params)
     = query_failures (project_query bq params) (new_Set (projects params))"
  "queriedProjects (queryVpcFlowLogs bq params) = new_Set (projects params)"
proof -
  show "records (queryVpcFlowLogs bq params)
     = slice0 (sort_desc (results (fold (query_project bq (sourceIp params) (destIp params)
                                          (flow_limit params) (flow_hours params))
                                     (new_Set (projects params))
                                     \<lparr>results = [], errors = [], queried = []\<rparr>)))
         (flow_limit params)"
    by (simp add: queryVpcFlowLogs_def Let_def)
  have e: "project_query bq params
             = (\<lambda>p. bq p (sourceIp params) (destIp params) (flow_limit params) (flow_hours params))"
    by (rule ext) (simp add: project_query_def)
  show "failure_entries (queryVpcFlowLogs bq params)
          = query_failures (project_query bq params) (new_Set (projects params))"
    by (simp add: queryVpcFlowLogs_def Let_def failure_entries_def fold_query_project_errors e)
  show "queriedProjects (queryVpcFlowLogs bq params) = new_Set (projects params)"
    by (simp add: queryVpcFlowLogs_def Let_def fold_query_project_queried)
qed


section \<open>Flow-log correlation: the claims\<close>




text \<open>
  C7. A query failure for one project never aborts the correlation: a query is issued
  for every project of the de-duplicated input, in order of first occurrence, whatever the
  earlier queries did; the errors list is exactly the list of the failed projects with
  their messages; so a project has one error entry when it is among the input projects
  and its query failed, and none otherwise, and an entry \<open>(p, m)\<close> is there exactly when
  the query of input project \<open>p\<close> failed with message \<open>m\<close>.
\<close>

theorem queryVpcFlowLogs_failures_do_not_abort:
  "queriedProjects (queryVpcFlowLogs bq params) = new_Set (projects params)
   \<and> set (queriedProjects (queryVpcFlowLogs bq params)) = set (projects params)
   \<and> failure_entries (queryVpcFlowLogs bq params)
       = query_failures (project_query bq params) (new_Set (projects params))
   \<and> length (filter (\<lambda>e. fst e = p) (failure_entries (queryVpcFlowLogs bq params)))
       = (if p \<in> set (projects params) \<and> isl (project_query bq params p) then 1 else 0)
   \<and> ((p, m) \<in> set (failure_entries (queryVpcFlowLogs bq params))
        \<longleftrightarrow> p \<in> set (projects params) \<and> project_query bq params p = Inl m)"
  using query_failures_once [OF distinct_new_Set, of p "project_query bq params" "projects params"]
  by (simp add: queryVpcFlowLogs_fields set_new_Set query_failures_failed)

section \<open>Firewall rule mutation: the claim\<close>











section \<open>Reachability probe: the delete call\<close>

text \<open>The delete call is the last statement of the \<open>try\<close> block: it is made once when
  the creation and the evaluation both succeeded, and not at all otherwise.\<close>

lemma delete_calls_runConnectivityTest:
  "delete_calls (snd (runConnectivityTest svc now params))
     = (case createConnectivityTest svc (ct_request now params) of
          Inl msg \<Rightarrow> 0
        | Inr oper \<Rightarrow> (case oper of Inl msg \<Rightarrow> 0 | Inr rd \<Rightarrow> 1))"
  by (simp add: runConnectivityTest_def Let_def split: sum.splits option.splits)

text \<open>
  C2 at a failing input: the test resource is created and the evaluation fails. The
  \<open>catch\<close> returns the error result; the only call made is the creation, and no delete
  call follows it.
\<close>

theorem no_delete_when_evaluation_fails:
  "runConnectivityTest svc_evaluation_fails 1700000000000 probe_params
     = (TestError ''Operation failed: internal error'' ct_suggestion,
        [CreateConnectivityTest (ct_request 1700000000000 probe_params)])
   \<and> delete_calls (snd (runConnectivityTest svc_evaluation_fails 1700000000000 probe_params)) = 0"
  by (simp add: runConnectivityTest_def svc_evaluation_fails_def Let_def)

section \<open>Session identifiers\<close>

lemma dec_less_10: "n < 10 \<Longrightarrow> dec n = [digit_char n]"
  by (simp add: dec.simps)

lemma dec_ge_10: "\<not> n < 10 \<Longrightarrow> dec n = dec (n div 10) @ [digit_char (n mod 10)]"
  by (subst dec.simps) simp

lemma dec_not_Nil: "dec n \<noteq> []"
  by (cases "n < 10") (simp_all add: dec_less_10 dec_ge_10)

lemma digit_char_inj: "a < 10 \<Longrightarrow> b < 10 \<Longrightarrow> digit_char a = digit_char b \<Longrightarrow> a = b"
proof -
  assume a: "a < 10" and b: "b < 10" and e: "digit_char a = digit_char b"
  have d: "distinct ''0123456789''" by simp
  have l: "length ''0123456789'' = 10" by simp
  from e have "''0123456789'' ! a = ''0123456789'' ! b"
    by (simp only: digit_char_def)
  with d a b l show "a = b"
    by (simp only: nth_eq_iff_index_eq)
qed

lemma dec_inj: "dec m = dec n \<Longrightarrow> m = n"
proof (induction m arbitrary: n rule: dec.induct)
  case (1 m)
  show ?case
  proof (cases "m < 10")
    case m: True
    show ?thesis
    proof (cases "n < 10")
      case True
      with m "1.prems" show ?thesis
        by (simp add: dec_less_10 digit_char_inj)
    next
      case False
      with m "1.prems" dec_not_Nil [of "n div 10"] show ?thesis
        by (simp add: dec_less_10 dec_ge_10)
    qed
  next
    case m: False
    show ?thesis
    proof (cases "n < 10")
      case True
      with m "1.prems" dec_not_Nil [of "m div 10"] show ?thesis
        by (simp add: dec_less_10 dec_ge_10)
    next
      case False
      with m "1.prems" have e: "dec (m div 10) = dec (n div 10)"
        and c: "digit_char (m mod 10) = digit_char (n mod 10)"
        by (simp_all add: dec_ge_10)
      from "1.IH" [OF m e] have q: "m div 10 = n div 10" .
      from c have r: "m mod 10 = n mod 10"
        by (rule digit_char_inj [rotated 2]) simp_all
      from q r show ?thesis
        by (metis div_mult_mod_eq)
    qed
  qed
qed

lemma session_id_inj: "session_id m = session_id n \<Longrightarrow> m = n"
  by (simp add: session_id_def dec_inj)

section \<open>The agents: who can invoke the mutating tool\<close>

lemma find_agent_in: "find_agent n as = Some b \<Longrightarrow> b \<in> set as"
  by (induction as) (auto split: if_splits)

text \<open>In a set of agents closed under sub-agents, a run that starts inside the set
  lets only the agents that hold the mutating tool invoke it.\<close>

lemma mutation_authors_hold_tool:
  assumes closed: "\<And>a. a \<in> U \<Longrightarrow> set (subAgents a) \<subseteq> U"
  shows "set stk \<subseteq> U \<Longrightarrow>
         set (mutation_authors (run_decisions stk ds))
           \<subseteq> agent_name ` {a \<in> U. manage_firewall_rule \<in> set (tools a)}"
proof (induction stk ds rule: run_decisions.induct)
  case (1 stk)
  show ?case by simp
next
  case (2 d ds)
  show ?case by simp
next
  case (3 a up t ds)
  then show ?case by auto
next
  case (4 a up n ds)
  show ?case
  proof (cases "find_agent n (subAgents a)")
    case (Some b)
    from find_agent_in [OF Some] closed [of a] "4.prems" have "b \<in> U" by auto
    with "4.prems" have "set (b # a # up) \<subseteq> U" by simp
    from "4.IH"(4) [OF Some this] Some show ?thesis by simp
  next
    case None
    show ?thesis
    proof (cases up)
      case Nil
      from "4.IH"(1) [OF None Nil "4.prems"] None Nil show ?thesis by simp
    next
      case (Cons p up')
      show ?thesis
      proof (cases "agent_name p = n")
        case True
        from "4.prems" have "set up \<subseteq> U" by simp
        from "4.IH"(2) [OF None Cons True this] None Cons True show ?thesis by simp
      next
        case False
        from "4.IH"(3) [OF None Cons False "4.prems"] None Cons False show ?thesis by simp
      qed
    qed
  qed
next
  case (5 a up answer ds)
  then show ?case by simp
qed

lemma delegating_agents_closed:
  "a \<in> {agent, troubleshooterAgent, firewallAdminAgent} \<Longrightarrow>
   set (subAgents a) \<subseteq> {agent, troubleshooterAgent, firewallAdminAgent}"
  by (auto simp: agent_def troubleshooterAgent_def firewallAdminAgent_def)

lemma delegating_mutation_holders:
  "agent_name ` {a \<in> {agent, troubleshooterAgent, firewallAdminAgent}.
                   manage_firewall_rule \<in> set (tools a)} \<subseteq> {''firewall_admin''}"
  by (auto simp: agent_def troubleshooterAgent_def firewallAdminAgent_def)

lemma delegating_mutation_authors:
  "set (mutation_authors (run_decisions [agent] ds)) \<subseteq> {''firewall_admin''}"
proof -
  have "set (mutation_authors (run_decisions [agent] ds))
          \<subseteq> agent_name ` {a \<in> {agent, troubleshooterAgent, firewallAdminAgent}.
                             manage_firewall_rule \<in> set (tools a)}"
  proof (rule mutation_authors_hold_tool)
    fix a
    assume "a \<in> {agent, troubleshooterAgent, firewallAdminAgent}"
    then show "set (subAgents a) \<subseteq> {agent, troubleshooterAgent, firewallAdminAgent}"
      by (rule delegating_agents_closed)
  next
    show "set [agent] \<subseteq> {agent, troubleshooterAgent, firewallAdminAgent}"
      by simp
  qed
  then show ?thesis
    using delegating_mutation_holders by (rule subset_trans)
qed

text \<open>The single-agent configuration gives its one agent, which diagnoses as well, the
  mutating tool.\<close>

lemma single_agent_holds_mutating_tool:
  "manage_firewall_rule \<in> set (tools single_agent)
   \<and> run_decisions [single_agent] [InvokeTool manage_firewall_rule]
       = [ToolInvocation ''network_support'' manage_firewall_rule]"
  by (simp add: single_agent_def)

section \<open>The agents: the claims\<close>

text \<open>
  C1, as the spec states it: the mutating operation is never invoked unless a user turn
  with a confirmation lies strictly between the proposal and the application. Nothing in
  the code checks for such a turn. In the session of one request the oracle hands over
  to the troubleshooter, which proposes a fix, hands over to the firewall administrator,
  and that one invokes \<open>manage_firewall_rule\<close>: the invocation is made, and the only user
  turn of the session is the request itself, before the proposal.
\<close>

theorem unconfirmed_mutation_counterexample:
  "unconfirmed_session
     = [UserTurn ''Project ID: proj-a. VM a cannot reach VM b'',
        Handoff ''network_support'' ''troubleshooter'',
        AgentText ''troubleshooter'' ''Port 80 is blocked. Would you like to apply this fix?'',
        Handoff ''troubleshooter'' ''firewall_admin'',
        ToolInvocation ''firewall_admin'' manage_firewall_rule]
   \<and> mutation_calls unconfirmed_session = 1
   \<and> \<not> gate 0 unconfirmed_session"
  by code_simp

text \<open>
  C1, amended: in the delegating configuration the coordinator has no tools and the tool
  set of the troubleshooter, the diagnostic role, does not contain the mutating
  operation; for every sequence of oracle decisions, every invocation of
  \<open>manage_firewall_rule\<close> in the run of a request is made by the firewall administrator.
\<close>

theorem mutation_only_by_firewall_admin:
  "tools agent = []
   \<and> manage_firewall_rule \<notin> set (tools troubleshooterAgent)
   \<and> set (mutation_authors
             (reply_details (snd (runAgent agent store now prompt projectId decisions))))
        \<subseteq> {''firewall_admin''}"
  using delegating_mutation_authors [of decisions]
  by (simp add: runAgent_def Let_def agent_def troubleshooterAgent_def)

text \<open>
  C3, as the spec states it: every turn of a conversation after the first is processed
  under the session created at the first message. In a conversation of two requests, the
  reply \<open>yes\<close> to the proposal of the first is processed under a second session, which
  holds nothing of the first.
\<close>

theorem reply_in_fresh_session_counterexample:
  "session_id 2000 \<noteq> session_id 1000
   \<and> store_after_second (session_id 1000)
       = Some [UserTurn ''Project ID: proj-a. VM a cannot reach VM b'',
               Handoff ''network_support'' ''troubleshooter'',
               AgentText ''troubleshooter''
                 ''Port 80 is blocked. Would you like to apply this fix?'']
   \<and> store_after_second (session_id 2000) = Some [UserTurn ''Project ID: proj-a. yes'']"
  by code_simp

text \<open>
  C3, amended: every call of \<open>runAgent\<close>, that is every user message, is served by
  exactly one session, the one named \<open>session-\<close> followed by the clock value of the
  call: it is created when no session has that name, the message and the events of the
  run are appended to it, and no other session changes. Calls at different clock values
  are served by different sessions.
\<close>

theorem runAgent_session_per_call:
  "fst (runAgent root store now prompt projectId decisions)
     = store(session_id now \<mapsto>
               history store (session_id now)
                 @ new_message prompt projectId # run_decisions [root] decisions)
   \<and> (now' \<noteq> now \<longrightarrow> session_id now' \<noteq> session_id now)"
proof -
  have "history (ensure_session store (session_id now)) (session_id now)
          = history store (session_id now)"
    by (simp add: ensure_session_def history_def split: option.splits)
  moreover have "(ensure_session store (session_id now))(session_id now \<mapsto> h)
                   = store(session_id now \<mapsto> h)" for h
    by (simp add: ensure_session_def split: option.splits)
  ultimately have "fst (runAgent root store now prompt projectId decisions)
     = store(session_id now \<mapsto>
               history store (session_id now)
                 @ new_message prompt projectId # run_decisions [root] decisions)"
    by (simp add: runAgent_def Let_def)
  moreover have "now' \<noteq> now \<longrightarrow> session_id now' \<noteq> session_id now"
    using session_id_inj [of now' now] by blast
  ultimately show ?thesis by simp
qed

theorem runAgent_session_per_call_witness:
  "(2000::nat) \<noteq> 1000
   \<and> session_id 2000 \<noteq> session_id 1000
   \<and> fst (runAgent agent store_after_first 1000 ''yes'' ''proj-a'' [])
       = store_after_first(session_id 1000 \<mapsto>
           history store_after_first (session_id 1000)
             @ new_message ''yes'' ''proj-a'' # run_decisions [agent] [])"
  using runAgent_session_per_call [of agent store_after_first 1000 "''yes''" "''proj-a''" "[]" 2000]
  by simp

end
